theory Spec2Isabelle
  imports Main "HOL-Library.AList" "HOL-Library.Multiset" "HOL-Library.Char_ord"
    "HOL-Library.List_Lexorder"
begin

section \<open>Element identities, values and elements\<close>

text \<open>
  Modelled from the spec: the elements, element identities and values that
  \<open>nacl_files_source.ts\<close> works on are declared in the adapter-api package, which is missing.
  The types of this section follow the spec's data model, its reference extractor (4.2) and
  its closed tagged union of values (section 9); the kinds of an identity are the ones the spec
  names (type, field, instance, nested value, annotation, variable). The functions that
  \<open>nacl_files_source.ts\<close> itself defines over these types are translated from the source.
\<close>

datatype idType = IdType | IdField | IdInstance | IdAttr | IdAnnotation | IdVar

text \<open>
  Modelled from the spec: ElemID (adapter-api) is missing. An identity is a hierarchical path:
  a top-level name and optional nested path segments; \<open>idType\<close> is the kind tag that
  \<open>getElementReferenced\<close> compares.
\<close>

datatype ElemID = ElemID (idType: idType) (topLevelName: string) (nestedPath: "string list")

fun joinDot :: "string list \<Rightarrow> string" where
  "joinDot [] = []"
| "joinDot [x] = x"
| "joinDot (x # y # ys) = x @ ''.'' @ joinDot (y # ys)"

text \<open>
  Modelled from the spec: \<open>ElemID.getFullName\<close> is missing. The full-name string form of an
  identity: the top-level name and the nested segments, separated by dots (\<open>a.b.c\<close>).
\<close>

definition getFullName :: "ElemID \<Rightarrow> string" where
  "getFullName i = joinDot (topLevelName i # nestedPath i)"

text \<open>
  Modelled from the spec: \<open>ElemID.createTopLevelParentID\<close> is missing. The top-level identity
  an identity is nested under, and the path below it. The top-level parent of an instance
  identity is an instance, that of a variable a variable, every other one a type.
\<close>

definition topLevelIdType :: "idType \<Rightarrow> idType" where
  "topLevelIdType k = (if k = IdInstance then IdInstance else if k = IdVar then IdVar else IdType)"

definition createTopLevelParentID :: "ElemID \<Rightarrow> ElemID \<times> string list" where
  "createTopLevelParentID i =
     (ElemID (topLevelIdType (idType i)) (topLevelName i) [], nestedPath i)"

text \<open>
  Modelled from the spec: \<open>ElemID.createNestedID\<close> is missing. The identity nested under
  \<open>parent\<close> along the given segments. The source passes the kind of the nested identity
  first when it differs from the parent's; the model takes it as a list of its own
  (empty or one kind), which sets the kind and adds no segment.
\<close>

definition createNestedID :: "ElemID \<Rightarrow> idType list \<Rightarrow> string list \<Rightarrow> ElemID" where
  "createNestedID parent kinds nameParts =
     ElemID (case kinds of [] \<Rightarrow> idType parent | k # _ \<Rightarrow> k)
       (topLevelName parent) (nestedPath parent @ nameParts)"

datatype primitive = PString string | PNumber int | PBoolean bool

text \<open>
  Modelled from the spec: the value tree of an element as a closed tagged union
  (primitive, list, record, reference).
\<close>

datatype val =
    Primitive primitive
  | ReferenceExpression ElemID
  | ListValue "val list"
  | RecordValue "(string \<times> val) list"

text \<open>
  Modelled from the spec: the Element classes (adapter-api) are missing. An object type has
  fields (each with a type and annotation values), annotation types and annotation values; a
  container type wraps an inner type; an instance has a type and a value record; a variable
  has a value. Type elements inside an element are elements themselves, as in the source.
\<close>

datatype element =
    ObjectType ElemID "(string \<times> element \<times> (string \<times> val) list) list"
      "(string \<times> element) list" "(string \<times> val) list"
  | PrimitiveType ElemID "(string \<times> element) list" "(string \<times> val) list"
  | ContainerType ElemID element
  | InstanceElement ElemID element "(string \<times> val) list"
      "(string \<times> element) list" "(string \<times> val) list"
  | Variable ElemID val

fun elemID :: "element \<Rightarrow> ElemID" where
  "elemID (ObjectType i _ _ _) = i"
| "elemID (PrimitiveType i _ _) = i"
| "elemID (ContainerType i _) = i"
| "elemID (InstanceElement i _ _ _ _) = i"
| "elemID (Variable i _) = i"

definition fullNameOf :: "element \<Rightarrow> string" where
  "fullNameOf e = getFullName (elemID e)"

section \<open>Parsed files and the state of the source\<close>

datatype parseError = ParseError string

datatype mergeError = MergeError (errElemID: ElemID) (errMessage: string)

datatype change =
    Addition element
  | Removal element
  | Modification element element

datatype error = TypeError string | Error string

text \<open>
  \<open>ParsedNaclFile\<close>. The \<open>referenced\<close> identities are kept in their full-name string form:
  the source builds them with \<open>ElemID.fromFullName\<close> and only ever reads them back with
  \<open>getFullName\<close>.
\<close>

record parsedNaclFile =
  filename :: string
  elements :: "element list"
  errors :: "parseError list"
  timestamp :: nat
  referenced :: "string list"

text \<open>
  Strings are lists of \<open>char\<close>: the model covers the strings whose UTF-16 code units are
  below 256, a character standing for the code unit of the same number.

  A JavaScript object with string keys is an association list with distinct keys, in the
  order in which JavaScript enumerates the object's own keys (\<open>Object.values\<close>,
  \<open>Object.keys\<close>, the spread): the keys that are array indices first, in ascending numeric
  order, then the other keys in insertion order (\<open>ownKeyOrder\<close> below). The indices and the
  merged elements of the state, which the source only reads by key, are maps.
\<close>

type_synonym parsedNaclFileMap = "(string \<times> parsedNaclFile) list"

record naclFilesState =
  parsedNaclFiles :: parsedNaclFileMap
  elementsIndex :: "string \<rightharpoonup> string list"
  mergedElements :: "string \<rightharpoonup> element"
  mergeErrors :: "mergeError list"
  referencedIndex :: "string \<rightharpoonup> string list"

record buildNaclFilesStateResult =
  state :: naclFilesState
  changes :: "change list"

section \<open>Sets, objects and lodash helpers\<close>

text \<open>A JavaScript \<open>Set\<close> is a duplicate-free list in insertion order.\<close>

definition setAdd :: "'a list \<Rightarrow> 'a \<Rightarrow> 'a list" where
  "setAdd s x = (if x \<in> set s then s else s @ [x])"

definition uniq :: "'a list \<Rightarrow> 'a list" where
  "uniq xs = foldl setAdd [] xs"

text \<open>
  The order of the own keys of an object. A key is an array index when it is the canonical
  decimal form of a number below \<open>2^32 - 1\<close>. Writing a key keeps the place of a key the
  object has (\<open>AList.update\<close>) and adds a new key at the end; \<open>ownKeyOrder\<close> then moves the
  array indices to the front, in ascending order.
\<close>

definition indexValue :: "string \<Rightarrow> nat" where
  "indexValue k = foldl (\<lambda>n c. 10 * n + (of_char c - 48)) 0 k"

definition isArrayIndex :: "string \<Rightarrow> bool" where
  "isArrayIndex k =
     (k \<noteq> [] \<and> (\<forall>c \<in> set k. c \<in> set ''0123456789'') \<and> (hd k = CHR ''0'' \<longrightarrow> k = ''0'') \<and>
      indexValue k < 4294967295)"

definition ownKeyOrder :: "(string \<times> 'a) list \<Rightarrow> (string \<times> 'a) list" where
  "ownKeyOrder obj =
     sort_key (\<lambda>kv. indexValue (fst kv)) (filter (\<lambda>kv. isArrayIndex (fst kv)) obj)
       @ filter (\<lambda>kv. \<not> isArrayIndex (fst kv)) obj"

text \<open>
  Reading a property \<open>obj[key]\<close> of a plain object: the object's own value, or else what every
  object inherits from \<open>Object.prototype\<close> under that name (a function, or the prototype
  itself for \<open>__proto__\<close>), or else undefined.
\<close>

datatype 'a property = Own 'a | Inherited string | Undefined

definition objectPrototypeNames :: "string list" where
  "objectPrototypeNames =
     [''constructor'', ''__defineGetter__'', ''__defineSetter__'', ''hasOwnProperty'',
      ''__lookupGetter__'', ''__lookupSetter__'', ''isPrototypeOf'', ''propertyIsEnumerable'',
      ''toString'', ''valueOf'', ''__proto__'', ''toLocaleString'']"

definition getProperty :: "(string \<rightharpoonup> 'a) \<Rightarrow> string \<Rightarrow> 'a property" where
  "getProperty obj key =
     (case obj key of
        Some v \<Rightarrow> Own v
      | None \<Rightarrow> if key \<in> set objectPrototypeNames then Inherited key else Undefined)"

text \<open>
  The lodash functions, as their documentation describes them: \<open>keyBy\<close> and \<open>fromPairs\<close>
  build an object key by key, a later value replacing an earlier one under the same key;
  \<open>omitBy\<close> keeps the entries that do not satisfy the predicate; \<open>groupBy\<close> collects the
  elements under the keys the iteratee gives. \<open>spread\<close> is the object literal
  \<open>{...obj1, ...obj2}\<close>.
\<close>

definition keyBy :: "('a \<Rightarrow> string) \<Rightarrow> 'a list \<Rightarrow> (string \<times> 'a) list" where
  "keyBy f xs = ownKeyOrder (foldl (\<lambda>obj x. AList.update (f x) x obj) [] xs)"

definition fromPairs :: "(string \<times> 'a) list \<Rightarrow> (string \<times> 'a) list" where
  "fromPairs pairs = ownKeyOrder (foldl (\<lambda>obj kv. AList.update (fst kv) (snd kv) obj) [] pairs)"

definition spread :: "(string \<times> 'a) list \<Rightarrow> (string \<times> 'a) list \<Rightarrow> (string \<times> 'a) list" where
  "spread obj1 obj2 =
     ownKeyOrder (foldl (\<lambda>obj kv. AList.update (fst kv) (snd kv) obj) obj1 obj2)"

definition omitBy :: "('a \<Rightarrow> bool) \<Rightarrow> (string \<times> 'a) list \<Rightarrow> (string \<times> 'a) list" where
  "omitBy p obj = filter (\<lambda>(k, v). \<not> p v) obj"

definition groupBy :: "('a \<Rightarrow> string) \<Rightarrow> 'a list \<Rightarrow> (string \<times> 'a list) list" where
  "groupBy f xs = ownKeyOrder (map (\<lambda>k. (k, filter (\<lambda>x. f x = k) xs)) (uniq (map f xs)))"

text \<open>
  \<open>map\<close> and \<open>forEach\<close> with a callback that can throw: the first error ends the loop.
\<close>

fun mapE :: "('a \<Rightarrow> error + 'b) \<Rightarrow> 'a list \<Rightarrow> error + 'b list" where
  "mapE f [] = Inr []"
| "mapE f (x # xs) =
     (case f x of
        Inl e \<Rightarrow> Inl e
      | Inr y \<Rightarrow> (case mapE f xs of Inl e \<Rightarrow> Inl e | Inr ys \<Rightarrow> Inr (y # ys)))"

fun forEachE :: "('b \<Rightarrow> 'a \<Rightarrow> error + 'b) \<Rightarrow> 'b \<Rightarrow> 'a list \<Rightarrow> error + 'b" where
  "forEachE f acc [] = Inr acc"
| "forEachE f acc (x # xs) =
     (case f acc x of Inl e \<Rightarrow> Inl e | Inr acc' \<Rightarrow> forEachE f acc' xs)"

section \<open>The reference extractor\<close>

text \<open>
  Modelled from the spec: the type guards, \<open>getDeepInnerType\<close>, \<open>ElemID.name\<close> and
  \<open>isIndexPathPart\<close> (adapter-api) are missing. A container type collapses to its innermost
  element type; the name of an identity is its last segment; an index path part is a decimal
  number.
\<close>

type_synonym field = "element \<times> (string \<times> val) list"

definition fieldType :: "field \<Rightarrow> element" where
  "fieldType f = fst f"

fun isObjectType :: "element \<Rightarrow> bool" where
  "isObjectType (ObjectType _ _ _ _) = True"
| "isObjectType _ = False"

fun isInstanceElement :: "element \<Rightarrow> bool" where
  "isInstanceElement (InstanceElement _ _ _ _ _) = True"
| "isInstanceElement _ = False"

fun isContainerType :: "element \<Rightarrow> bool" where
  "isContainerType (ContainerType _ _) = True"
| "isContainerType _ = False"

fun isVariable :: "element \<Rightarrow> bool" where
  "isVariable (Variable _ _) = True"
| "isVariable _ = False"

fun fields :: "element \<Rightarrow> (string \<times> field) list" where
  "fields (ObjectType _ fs _ _) = fs"
| "fields _ = []"

fun annotationTypes :: "element \<Rightarrow> (string \<times> element) list" where
  "annotationTypes (ObjectType _ _ ats _) = ats"
| "annotationTypes (PrimitiveType _ ats _) = ats"
| "annotationTypes (InstanceElement _ _ _ ats _) = ats"
| "annotationTypes _ = []"

fun getDeepInnerType :: "element \<Rightarrow> element" where
  "getDeepInnerType (ContainerType _ inner) = getDeepInnerType inner"
| "getDeepInnerType t = t"

definition getTypeOrContainerTypeID :: "element \<Rightarrow> ElemID" where
  "getTypeOrContainerTypeID typeElem =
     (if isContainerType typeElem then elemID (getDeepInnerType typeElem) else elemID typeElem)"

definition name :: "ElemID \<Rightarrow> string" where
  "name i = last (topLevelName i # nestedPath i)"

definition isIndexPathPart :: "string \<Rightarrow> bool" where
  "isIndexPathPart key = (key \<noteq> [] \<and> (\<forall>c \<in> set key. c \<in> set ''0123456789''))"

definition digitChar :: "nat \<Rightarrow> char" where
  "digitChar d = (if d < 10 then ''0123456789'' ! d else CHR ''0'')"

function showNat :: "nat \<Rightarrow> string" where
  "showNat n = (if n < 10 then [digitChar n] else showNat (n div 10) @ [digitChar (n mod 10)])"
  by pat_completeness auto
termination
  by (relation "measure id") auto

text \<open>
  Modelled from the spec: \<open>transformElement\<close> (adapter-utils) is missing. The traversal is
  total over nested lists and records, visits every value of the element's value tree once
  (the instance value and the annotation values; for an object type its annotation values and
  those of its fields) and does not look inside a reference expression. With a callback that
  returns every value unchanged, as \<open>transformFunc\<close> below does, the traversal is the list of
  the callback's arguments in visiting order: the value, the field declared for it (resolved
  from the governing type, when there is one) and its path.
\<close>

datatype transformFuncArgs =
  TransformFuncArgs (tfValue: val) (tfField: "field option") (tfPath: "ElemID option")

definition fieldsOfType :: "element \<Rightarrow> (string \<times> field) list" where
  "fieldsOfType t = fields (getDeepInnerType t)"

fun walkValue :: "field option \<Rightarrow> ElemID \<Rightarrow> val \<Rightarrow> transformFuncArgs list"
  and walkItems :: "field option \<Rightarrow> ElemID \<Rightarrow> nat \<Rightarrow> val list \<Rightarrow> transformFuncArgs list"
  and walkEntries :: "(string \<times> field) list \<Rightarrow> ElemID \<Rightarrow> (string \<times> val) list \<Rightarrow> transformFuncArgs list"
where
  "walkValue fld path (Primitive p) = [TransformFuncArgs (Primitive p) fld (Some path)]"
| "walkValue fld path (ReferenceExpression r) =
     [TransformFuncArgs (ReferenceExpression r) fld (Some path)]"
| "walkValue fld path (ListValue vs) =
     TransformFuncArgs (ListValue vs) fld (Some path) # walkItems fld path 0 vs"
| "walkValue fld path (RecordValue kvs) =
     TransformFuncArgs (RecordValue kvs) fld (Some path)
       # walkEntries (case fld of None \<Rightarrow> [] | Some f \<Rightarrow> fieldsOfType (fieldType f)) path kvs"
| "walkItems fld path i [] = []"
| "walkItems fld path i (v # vs) =
     walkValue fld (createNestedID path [] [showNat i]) v @ walkItems fld path (Suc i) vs"
| "walkEntries fs path [] = []"
| "walkEntries fs path (kv # kvs) =
     walkValue (map_of fs (fst kv)) (createNestedID path [] [fst kv]) (snd kv)
       @ walkEntries fs path kvs"

definition annotationFields :: "element \<Rightarrow> (string \<times> field) list" where
  "annotationFields e = map (\<lambda>kt. (fst kt, (snd kt, []))) (annotationTypes e)"

fun transformElement :: "element \<Rightarrow> transformFuncArgs list" where
  "transformElement (InstanceElement i t v ats anns) =
     walkEntries (fieldsOfType t) i v
       @ walkEntries (annotationFields (InstanceElement i t v ats anns)) i anns"
| "transformElement (ObjectType i fs ats anns) =
     walkEntries (annotationFields (ObjectType i fs ats anns)) (createNestedID i [IdAttr] []) anns
       @ concat (map (\<lambda>nf. walkEntries (annotationFields (fieldType (snd nf)))
                        (createNestedID i [IdField] [fst nf]) (snd (snd nf))) fs)"
| "transformElement (PrimitiveType i ats anns) =
     walkEntries (annotationFields (PrimitiveType i ats anns)) (createNestedID i [IdAttr] []) anns"
| "transformElement (ContainerType i inner) = transformElement inner"
| "transformElement (Variable i v) = []"

text \<open>
  \<open>getElementReferenced\<close> and its callback, from the source. The set \<open>referenced\<close> is threaded
  through as an insertion-ordered list.
\<close>

definition transformFunc :: "transformFuncArgs \<Rightarrow> string list \<Rightarrow> string list" where
  "transformFunc args referencedSet =
     (let referenced1 =
            (case tfField args of
               None \<Rightarrow> referencedSet
             | Some field \<Rightarrow>
                 (case tfPath args of
                    None \<Rightarrow> referencedSet
                  | Some path \<Rightarrow>
                      if \<not> isIndexPathPart (name path)
                      then setAdd referencedSet
                             (getFullName (getTypeOrContainerTypeID (fieldType field)))
                      else referencedSet))
      in case tfValue args of
           ReferenceExpression elemId \<Rightarrow>
             (let parent = fst (createTopLevelParentID elemId);
                  valueIDPath = snd (createTopLevelParentID elemId);
                  nestedIds =
                    map (\<lambda>index. createNestedID parent
                           (if idType elemId \<noteq> idType parent then [idType elemId] else [])
                           (take (index + 1) valueIDPath))
                      [0..<length valueIDPath];
                  referenced2 = setAdd referenced1 (getFullName parent)
              in foldl (\<lambda>r i. setAdd r (getFullName i)) referenced2 nestedIds)
         | _ \<Rightarrow> referenced1)"

definition getElementReferenced :: "element \<Rightarrow> string list" where
  "getElementReferenced element =
     (let referenced1 =
            (if isObjectType element
             then foldl setAdd []
                    (map getFullName
                      (map (\<lambda>field. getTypeOrContainerTypeID (fieldType field))
                        (map snd (fields element))))
             else []);
          referenced2 =
            (case element of
               InstanceElement _ t _ _ _ \<Rightarrow> setAdd referenced1 (getFullName (elemID t))
             | _ \<Rightarrow> referenced1);
          referenced3 =
            foldl setAdd referenced2
              (map getFullName (map getTypeOrContainerTypeID (map snd (annotationTypes element))))
      in if \<not> isContainerType element \<and> \<not> isVariable element
         then foldl (\<lambda>r args. transformFunc args r) referenced3 (transformElement element)
         else referenced3)"

definition getElementsReferences :: "element list \<Rightarrow> string list" where
  "getElementsReferences es =
     foldl (\<lambda>referencedSet elem. foldl setAdd referencedSet (getElementReferenced elem)) [] es"

section \<open>The merge engine\<close>

text \<open>
  Modelled from the spec: \<open>mergeElements\<close> (the merger module) is missing. The merge engine
  combines the fragments that share a top-level identity into one logical element and
  produces merge errors. How the fragments of one identity are combined is the parameter
  \<open>mg\<close>; the engine applies it to each identity's fragments, in the order the identities
  first occur.
\<close>

datatype mergeResult = MergeResult (merged: "element list") (mergedErrors: "mergeError list")

definition fragmentsOf :: "string \<Rightarrow> element list \<Rightarrow> element list" where
  "fragmentsOf n es = filter (\<lambda>e. fullNameOf e = n) es"

definition mergeElements ::
  "(element list \<Rightarrow> element \<times> mergeError list) \<Rightarrow> element list \<Rightarrow> mergeResult" where
  "mergeElements mg es =
     (let groups = map (\<lambda>n. mg (fragmentsOf n es)) (uniq (map fullNameOf es))
      in MergeResult (map fst groups) (concat (map snd groups)))"

definition errTopLevelName :: "mergeError \<Rightarrow> string" where
  "errTopLevelName err = getFullName (fst (createTopLevelParentID (errElemID err)))"

definition changeOf :: "element option \<Rightarrow> element option \<Rightarrow> change option" where
  "changeOf beforeElem afterElem =
     (case beforeElem of
        None \<Rightarrow> (case afterElem of None \<Rightarrow> None | Some a \<Rightarrow> Some (Addition a))
      | Some b \<Rightarrow>
          (case afterElem of
             None \<Rightarrow> Some (Removal b)
           | Some a \<Rightarrow> if a = b then None else Some (Modification b a)))"

record mergedElementsAndErrors =
  newMergedElements :: "string \<rightharpoonup> element"
  newMergeErrors :: "mergeError list"
  newChanges :: "change list"

text \<open>
  Modelled from the spec: \<open>buildNewMergedElementsAndErrors\<close> (the elements cache module) is
  missing. The incremental variant of the merge engine takes the prior merged map, the prior
  errors, the new element subset and the affected identities; entries and errors of
  unaffected identities are carried over untouched, the new elements are merged, and one
  change (added, modified, removed) is reported for every affected identity whose merged
  element differs from the prior one.
\<close>

definition buildNewMergedElementsAndErrors ::
  "(element list \<Rightarrow> element \<times> mergeError list) \<Rightarrow> element list \<Rightarrow> string list \<Rightarrow>
   (string \<rightharpoonup> element) \<Rightarrow> mergeError list \<Rightarrow> mergedElementsAndErrors" where
  "buildNewMergedElementsAndErrors mg newElements relevantElementIDs currentElements
     currentMergeErrors =
     (let res = mergeElements mg newElements;
          newMerged = map_of (keyBy fullNameOf (merged res))
      in \<lparr> newMergedElements =
             (\<lambda>k. if k \<in> set relevantElementIDs then None else currentElements k) ++ newMerged,
           newMergeErrors =
             filter (\<lambda>err. errTopLevelName err \<notin> set relevantElementIDs) currentMergeErrors
               @ mergedErrors res,
           newChanges =
             List.map_filter (\<lambda>k. changeOf (currentElements k) (newMerged k))
               relevantElementIDs \<rparr>)"

section \<open>buildNaclFilesState\<close>

definition allParsedOf :: "parsedNaclFileMap \<Rightarrow> parsedNaclFile list \<Rightarrow> parsedNaclFileMap" where
  "allParsedOf current newNaclFiles =
     omitBy (\<lambda>parsed. elements parsed = [] \<and> errors parsed = [])
       (spread current (keyBy filename newNaclFiles))"

text \<open>
  The index sets are plain objects: \<open>idx[name] = idx[name] ?? new Set()\<close> keeps what
  \<open>idx[name]\<close> reads, which for a name that the object does not own and \<open>Object.prototype\<close>
  has is the inherited value; \<open>add\<close> is then not a function and the call throws a TypeError.
  \<open>indexName\<close> is the name of the index set, for the message.
\<close>

definition addToIndex ::
  "string \<Rightarrow> (string \<rightharpoonup> string list) \<Rightarrow> string \<Rightarrow> string \<Rightarrow> error + (string \<rightharpoonup> string list)" where
  "addToIndex indexName idx elementFullName file =
     (case getProperty idx elementFullName of
        Undefined \<Rightarrow> Inr (idx(elementFullName \<mapsto> setAdd [] file))
      | Own s \<Rightarrow> Inr (idx(elementFullName \<mapsto> setAdd s file))
      | Inherited p \<Rightarrow>
          Inl (TypeError (indexName @ ''[elementFullName].add is not a function'')))"

definition indexNaclFile ::
  "(string \<rightharpoonup> string list) \<times> (string \<rightharpoonup> string list) \<Rightarrow> parsedNaclFile \<Rightarrow>
   error + (string \<rightharpoonup> string list) \<times> (string \<rightharpoonup> string list)" where
  "indexNaclFile idxs naclFile =
     (case forEachE (\<lambda>idx element.
               addToIndex ''elementsIndexSet'' idx (fullNameOf element) (filename naclFile))
             (fst idxs) (elements naclFile) of
        Inl e \<Rightarrow> Inl e
      | Inr elementsIndexSet \<Rightarrow>
          (case forEachE (\<lambda>idx r. addToIndex ''referencedIndexSet'' idx r (filename naclFile))
                  (snd idxs) (referenced naclFile) of
             Inl e \<Rightarrow> Inl e
           | Inr referencedIndexSet \<Rightarrow> Inr (elementsIndexSet, referencedIndexSet)))"

definition buildIndices ::
  "parsedNaclFileMap \<Rightarrow> error + (string \<rightharpoonup> string list) \<times> (string \<rightharpoonup> string list)" where
  "buildIndices allParsed = forEachE indexNaclFile (Map.empty, Map.empty) (map snd allParsed)"

definition newNaclFilesElementsOf :: "parsedNaclFile list \<Rightarrow> element list" where
  "newNaclFilesElementsOf newNaclFiles = concat (map elements newNaclFiles)"

text \<open>
  \<open>current?.[filename]?.elements ?? []\<close>: an inherited value has no property \<open>elements\<close>, so
  it reads as the empty list, like a missing one.
\<close>

definition currentElementsOfNewFiles ::
  "parsedNaclFileMap \<Rightarrow> parsedNaclFile list \<Rightarrow> element list" where
  "currentElementsOfNewFiles current newNaclFiles =
     concat (map (\<lambda>name. case getProperty (map_of current) name of
                            Own p \<Rightarrow> elements p
                          | Inherited p \<Rightarrow> []
                          | Undefined \<Rightarrow> [])
       (map filename newNaclFiles))"

definition relevantElementIDsOf :: "parsedNaclFileMap \<Rightarrow> parsedNaclFile list \<Rightarrow> string list" where
  "relevantElementIDsOf current newNaclFiles =
     uniq (map fullNameOf
       (newNaclFilesElementsOf newNaclFiles @ currentElementsOfNewFiles current newNaclFiles))"

text \<open>
  \<open>elementsIndex[fullName] ?? []\<close>: an inherited value is not an array, so \<open>flatMap\<close> keeps it
  as one item of \<open>relevantFiles\<close>, beside the file names. Used as the key in
  \<open>allParsed[fileName]\<close> it is converted to a string: \<open>[object Object]\<close> for the prototype
  object, the source text of a native function, as Node.js prints it, for the others.
\<close>

datatype fileRef = FileName string | PrototypeValue string

definition propertyKey :: "fileRef \<Rightarrow> string" where
  "propertyKey r =
     (case r of
        FileName f \<Rightarrow> f
      | PrototypeValue p \<Rightarrow>
          if p = ''__proto__'' then ''[object Object]''
          else ''function '' @ (if p = ''constructor'' then ''Object'' else p)
                 @ ''() { [native code] }'')"

definition indexEntry :: "(string \<rightharpoonup> string list) \<Rightarrow> string \<Rightarrow> fileRef list" where
  "indexEntry elementsIdx fullName =
     (case getProperty elementsIdx fullName of
        Own fs \<Rightarrow> map FileName fs
      | Inherited p \<Rightarrow> [PrototypeValue p]
      | Undefined \<Rightarrow> [])"

definition relevantFilesOf :: "(string \<rightharpoonup> string list) \<Rightarrow> string list \<Rightarrow> fileRef list" where
  "relevantFilesOf elementsIdx relevantElementIDs =
     uniq (concat (map (indexEntry elementsIdx) relevantElementIDs))"

text \<open>
  \<open>allParsed[fileName].elements.filter(...)\<close> throws a TypeError when \<open>allParsed\<close> has no
  value under the key (reading \<open>elements\<close> of undefined) and when the value is an inherited
  one (it has no \<open>elements\<close>, so \<open>filter\<close> is read of undefined).
\<close>

definition newElementsToMergeOf ::
  "parsedNaclFileMap \<Rightarrow> fileRef list \<Rightarrow> string list \<Rightarrow> error + element list" where
  "newElementsToMergeOf allParsed relevantFiles relevantElementIDs =
     (case mapE (\<lambda>fileName.
         case getProperty (map_of allParsed) (propertyKey fileName) of
           Undefined \<Rightarrow> Inl (TypeError ''Cannot read property elements of undefined'')
         | Inherited p \<Rightarrow> Inl (TypeError ''Cannot read property filter of undefined'')
         | Own p \<Rightarrow>
             Inr (filter (\<lambda>e. fullNameOf e \<in> set relevantElementIDs) (elements p)))
         relevantFiles of
        Inl e \<Rightarrow> Inl e
      | Inr ess \<Rightarrow> Inr (concat ess))"

definition buildNaclFilesState ::
  "(element list \<Rightarrow> element \<times> mergeError list) \<Rightarrow> parsedNaclFile list \<Rightarrow>
   naclFilesState option \<Rightarrow> error + buildNaclFilesStateResult" where
  "buildNaclFilesState mg newNaclFiles currentState =
     (let current = (case currentState of None \<Rightarrow> [] | Some cs \<Rightarrow> parsedNaclFiles cs);
          allParsed = allParsedOf current newNaclFiles
      in case buildIndices allParsed of
           Inl e \<Rightarrow> Inl e
         | Inr idxs \<Rightarrow>
             (let newNaclFilesElements = newNaclFilesElementsOf newNaclFiles
              in case currentState of
                   None \<Rightarrow>
                     (let mergeResult = mergeElements mg newNaclFilesElements
                      in Inr \<lparr> state = \<lparr> parsedNaclFiles = allParsed,
                                         elementsIndex = fst idxs,
                                         mergedElements =
                                           map_of (keyBy fullNameOf (merged mergeResult)),
                                         mergeErrors = mergedErrors mergeResult,
                                         referencedIndex = snd idxs \<rparr>,
                               changes = [] \<rparr>)
                 | Some cs \<Rightarrow>
                     (let relevantElementIDs = relevantElementIDsOf current newNaclFiles;
                          relevantFiles = relevantFilesOf (fst idxs) relevantElementIDs
                      in case newElementsToMergeOf allParsed relevantFiles relevantElementIDs of
                           Inl e \<Rightarrow> Inl e
                         | Inr newElementsToMerge \<Rightarrow>
                             (let mergedResult =
                                    buildNewMergedElementsAndErrors mg newElementsToMerge
                                      relevantElementIDs (mergedElements cs) (mergeErrors cs)
                              in Inr \<lparr> state = \<lparr> parsedNaclFiles = allParsed,
                                                 elementsIndex = fst idxs,
                                                 mergedElements = newMergedElements mergedResult,
                                                 mergeErrors = newMergeErrors mergedResult,
                                                 referencedIndex = snd idxs \<rparr>,
                                       changes = newChanges mergedResult \<rparr>))))"

section \<open>The nacl files source\<close>

text \<open>
  Modelled from the spec: the directory store, the parse result cache and the static files
  source are interfaces whose implementations are missing, and so are the parser's
  \<open>ParseResult\<close>, \<open>SourceRange\<close> and \<open>SourceMap\<close>. The store is a name-addressed text blob
  store (an association list in listing order), the cache maps a key
  \<open>{filename, lastModified, buffer}\<close> to a parse result, the static files source is the list of
  its blobs, a source map maps full names to source ranges. \<open>Date.now()\<close> reads the field
  \<open>clock\<close>. The state variable of the closure holds a promise: unset, resolved to a state, or
  rejected. The file name of a cache key is optional: \<open>cacheResultKey\<close> can be handed a value
  without one.
\<close>

datatype sourceRange = SourceRange (rangeFilename: string) (rangeStart: nat) (rangeEnd: nat)

type_synonym sourceMap = "(string \<times> sourceRange list) list"

definition mergeSourceMap :: "sourceMap \<Rightarrow> sourceMap \<Rightarrow> sourceMap" where
  "mergeSourceMap acc sm =
     foldl (\<lambda>m kv. AList.update (fst kv)
              ((case map_of m (fst kv) of None \<Rightarrow> [] | Some rs \<Rightarrow> rs) @ snd kv) m) acc sm"

datatype naclFile = NaclFile (buffer: string) (naclFilename: string) (naclTimestamp: "nat option")

datatype parseResult =
  ParseResult (parsedElements: "element list") (parsedErrors: "parseError list")
    (parsedSourceMap: "sourceMap option")

datatype parseResultKey =
  ParseResultKey (keyFilename: "string option") (lastModified: nat) (keyBuffer: "string option")

datatype statePromise = Resolved naclFilesState | Rejected error

record naclSource =
  naclFilesStore :: "(string \<times> naclFile) list"
  cache :: "parseResultKey \<rightharpoonup> parseResult"
  staticFileSource :: "string list"
  sourceState :: "statePromise option"
  clock :: nat

text \<open>
  Detailed changes, and the collaborators the source calls: the parser, the combiner of the
  merge engine, \<open>resolvePath\<close> (as the test whether it is defined) and the functions of the
  nacl file update module. They are parameters of the model.
\<close>

datatype action = Add | Modify | Remove

datatype changeData = DataElement element | DataValue val

datatype detailedChange =
  DetailedChange (changeId: ElemID) (action: action) (dataBefore: "changeData option")
    (dataAfter: "changeData option")

datatype detailedChangeWithSource =
  DetailedChangeWithSource (detailed: detailedChange) (location: sourceRange)

record externals =
  parse :: "string \<Rightarrow> string \<Rightarrow> error + element list \<times> parseError list \<times> sourceMap"
  mergeFragments :: "element list \<Rightarrow> element \<times> mergeError list"
  resolvePath :: "element \<Rightarrow> ElemID \<Rightarrow> bool"
  getChangesToUpdate :: "detailedChange list \<Rightarrow> sourceMap \<Rightarrow> detailedChange list"
  getChangeLocations :: "detailedChange \<Rightarrow> sourceMap \<Rightarrow> detailedChangeWithSource list"
  updateNaclFileData :: "string \<Rightarrow> detailedChangeWithSource list \<Rightarrow> error + string"
  getNestedStaticFiles :: "changeData \<Rightarrow> string list"

text \<open>
  An operation of the source takes the source and returns its result, an error for a thrown
  exception, together with the source as the operation leaves it. Concurrent calls
  (\<open>withLimitedConcurrency\<close>, \<open>Promise.all\<close>) run one after the other, in list order.
\<close>

type_synonym 'a io = "naclSource \<Rightarrow> (error + 'a) \<times> naclSource"

definition returnE :: "'a \<Rightarrow> 'a io" where
  "returnE x src = (Inr x, src)"

definition throwE :: "error \<Rightarrow> 'a io" where
  "throwE e src = (Inl e, src)"

definition bindE :: "'a io \<Rightarrow> ('a \<Rightarrow> 'b io) \<Rightarrow> 'b io" where
  "bindE m f src = (case m src of (Inl e, src') \<Rightarrow> (Inl e, src') | (Inr x, src') \<Rightarrow> f x src')"

fun mapIO :: "('a \<Rightarrow> 'b io) \<Rightarrow> 'a list \<Rightarrow> 'b list io" where
  "mapIO f [] = returnE []"
| "mapIO f (x # xs) = bindE (f x) (\<lambda>y. bindE (mapIO f xs) (\<lambda>ys. returnE (y # ys)))"

definition cacheResultKey ::
  "nat \<Rightarrow> string option \<Rightarrow> nat option \<Rightarrow> string option \<Rightarrow> parseResultKey" where
  "cacheResultKey now fname ts buf =
     ParseResultKey fname (case ts of None \<Rightarrow> now | Some t \<Rightarrow> t) buf"

definition toParsedNaclFile :: "nat \<Rightarrow> naclFile \<Rightarrow> parseResult \<Rightarrow> parsedNaclFile" where
  "toParsedNaclFile now naclFile parseRes =
     \<lparr> filename = naclFilename naclFile,
       elements = parsedElements parseRes,
       errors = parsedErrors parseRes,
       timestamp = (case naclTimestamp naclFile of
                      None \<Rightarrow> now
                    | Some t \<Rightarrow> if t = 0 then now else t),
       referenced = getElementsReferences (parsedElements parseRes) \<rparr>"

definition parseNaclFile :: "externals \<Rightarrow> naclFile \<Rightarrow> parseResult io" where
  "parseNaclFile ext naclFile src =
     (case parse ext (buffer naclFile) (naclFilename naclFile) of
        Inl e \<Rightarrow> (Inl e, src)
      | Inr res \<Rightarrow>
          (let parseRes = ParseResult (fst res) (fst (snd res)) (Some (snd (snd res)));
               key = cacheResultKey (clock src) (Some (naclFilename naclFile))
                       (naclTimestamp naclFile) (Some (buffer naclFile))
           in (Inr parseRes, src\<lparr> cache := (cache src)(key \<mapsto> parseRes) \<rparr>)))"

definition parseOneNaclFile :: "externals \<Rightarrow> naclFile \<Rightarrow> parsedNaclFile io" where
  "parseOneNaclFile ext naclFile src =
     (let key = cacheResultKey (clock src) (Some (naclFilename naclFile))
                  (naclTimestamp naclFile) (Some (buffer naclFile))
      in case cache src key of
           Some cachedResult \<Rightarrow> (Inr (toParsedNaclFile (clock src) naclFile cachedResult), src)
         | None \<Rightarrow>
             bindE (parseNaclFile ext naclFile)
               (\<lambda>parseRes s. (Inr (toParsedNaclFile (clock s) naclFile parseRes), s)) src)"

definition parseNaclFiles :: "externals \<Rightarrow> naclFile list \<Rightarrow> parsedNaclFile list io" where
  "parseNaclFiles ext naclFiles = mapIO (parseOneNaclFile ext) naclFiles"

definition getParsedNaclFiles :: "externals \<Rightarrow> parsedNaclFile list io" where
  "getParsedNaclFiles ext src = parseNaclFiles ext (map snd (naclFilesStore src)) src"

definition getState :: "externals \<Rightarrow> naclFilesState io" where
  "getState ext src =
     (case sourceState src of
        Some (Resolved s) \<Rightarrow> (Inr s, src)
      | Some (Rejected e) \<Rightarrow> (Inl e, src)
      | None \<Rightarrow>
          (case getParsedNaclFiles ext src of
             (Inl e, src') \<Rightarrow> (Inl e, src'\<lparr> sourceState := Some (Rejected e) \<rparr>)
           | (Inr parsedFiles, src') \<Rightarrow>
               (case buildNaclFilesState (mergeFragments ext) parsedFiles None of
                  Inl e \<Rightarrow> (Inl e, src'\<lparr> sourceState := Some (Rejected e) \<rparr>)
                | Inr res \<Rightarrow>
                    (Inr (state res), src'\<lparr> sourceState := Some (Resolved (state res)) \<rparr>))))"

definition buildNaclFilesStateInner ::
  "externals \<Rightarrow> parsedNaclFile list \<Rightarrow> buildNaclFilesStateResult io" where
  "buildNaclFilesStateInner ext parsedFiles src =
     (case sourceState src of
        None \<Rightarrow> bindE (getState ext) (\<lambda>s. returnE \<lparr> state = s, changes = [] \<rparr>) src
      | Some (Rejected e) \<Rightarrow> (Inl e, src)
      | Some (Resolved current) \<Rightarrow>
          (buildNaclFilesState (mergeFragments ext) parsedFiles (Some current), src))"

definition getNaclFile :: "string \<Rightarrow> naclSource \<Rightarrow> naclFile option" where
  "getNaclFile fname src = map_of (naclFilesStore src) fname"

text \<open>
  \<open>getParsedNaclFile\<close> returns what \<open>parsedNaclFiles[filename]\<close> reads when the state is
  set. \<open>getElementNaclFiles\<close>: \<open>elementsIndex[...] || []\<close> is an inherited value for a name of
  \<open>Object.prototype\<close> that the index does not own, and \<open>topLevelFiles.map\<close> is then not a
  function; \<open>?.elements ?? []\<close> of an inherited value is the empty list.
\<close>

definition getParsedNaclFile :: "externals \<Rightarrow> string \<Rightarrow> parsedNaclFile property io" where
  "getParsedNaclFile ext fname src =
     (if sourceState src \<noteq> None
      then bindE (getState ext)
             (\<lambda>s. returnE (getProperty (map_of (parsedNaclFiles s)) fname)) src
      else case getNaclFile fname src of
             None \<Rightarrow> (Inr Undefined, src)
           | Some naclFile \<Rightarrow>
               bindE (parseNaclFiles ext [naclFile])
                 (\<lambda>ps. returnE (case ps of [] \<Rightarrow> Undefined | p # _ \<Rightarrow> Own p)) src)"

definition filesWithFragment :: "externals \<Rightarrow> ElemID \<Rightarrow> string list \<Rightarrow> string list io" where
  "filesWithFragment ext i topLevelFiles =
     bindE (mapIO (\<lambda>fname.
              bindE (getParsedNaclFile ext fname) (\<lambda>p.
                (let fragments = (case p of Own q \<Rightarrow> elements q | Inherited n \<Rightarrow> [] | Undefined \<Rightarrow> [])
                 in returnE (if \<exists>fragment \<in> set fragments. resolvePath ext fragment i
                             then Some fname else None))))
            topLevelFiles)
       (\<lambda>found. returnE (List.map_filter (\<lambda>x. x) found))"

definition getElementNaclFiles :: "externals \<Rightarrow> ElemID \<Rightarrow> string list io" where
  "getElementNaclFiles ext i =
     bindE (getState ext) (\<lambda>s.
       case getProperty (elementsIndex s) (getFullName (fst (createTopLevelParentID i))) of
         Own topLevelFiles \<Rightarrow> filesWithFragment ext i topLevelFiles
       | Undefined \<Rightarrow> filesWithFragment ext i []
       | Inherited p \<Rightarrow> throwE (TypeError ''topLevelFiles.map is not a function''))"

text \<open>
  \<open>getSourceMap\<close>. \<open>cacheResultKey(parsedNaclFile)\<close> reads \<open>parsedNaclFile.filename\<close>: when
  \<open>parsedNaclFiles\<close> has no value under the file name the argument is undefined and the read
  throws a TypeError; an inherited value has no file name, time stamp or buffer, so the key
  has no file name and the time of the call. \<open>getSourceMapOf\<close> is the body of the function
  for an argument that can be undefined (\<open>None\<close>), as \<open>updateNaclFiles\<close> can pass it; the
  lookup in \<open>parsedNaclFiles\<close> then uses the key \<open>undefined\<close>. Modelled from the spec: the
  directory store has no file for a name that is undefined.
\<close>

definition getSourceMapOf :: "externals \<Rightarrow> string option \<Rightarrow> sourceMap io" where
  "getSourceMapOf ext fnameArg =
     bindE (getState ext) (\<lambda>s src.
       case (case getProperty (map_of (parsedNaclFiles s))
                    (case fnameArg of None \<Rightarrow> ''undefined'' | Some fname \<Rightarrow> fname) of
               Undefined \<Rightarrow> Inl (TypeError ''Cannot read property filename of undefined'')
             | Own parsedFile \<Rightarrow>
                 Inr (cacheResultKey (clock src) (Some (filename parsedFile))
                        (Some (timestamp parsedFile)) None)
             | Inherited p \<Rightarrow> Inr (cacheResultKey (clock src) None None None)) of
         Inl e \<Rightarrow> (Inl e, src)
       | Inr key \<Rightarrow>
           (case (case cache src key of None \<Rightarrow> None | Some c \<Rightarrow> parsedSourceMap c) of
              Some sm \<Rightarrow> (Inr sm, src)
            | None \<Rightarrow>
                (case (case fnameArg of
                         None \<Rightarrow> None
                       | Some fname \<Rightarrow> map_of (naclFilesStore src) fname) of
                   None \<Rightarrow> (Inr [], src)
                 | Some naclFile \<Rightarrow>
                     bindE (parseNaclFile ext naclFile)
                       (\<lambda>parsedRes. returnE
                          (case parsedSourceMap parsedRes of None \<Rightarrow> [] | Some sm \<Rightarrow> sm))
                       src)))"

definition getSourceMap :: "externals \<Rightarrow> string \<Rightarrow> sourceMap io" where
  "getSourceMap ext fname = getSourceMapOf ext (Some fname)"

text \<open>
  \<open>String.prototype.trim\<close> removes white space and line terminators; among the code units
  below 256 these are the tab, the line feed, the vertical tab, the form feed, the carriage
  return, the space and the no-break space.
\<close>

definition isBlank :: "string \<Rightarrow> bool" where
  "isBlank s =
     (\<forall>c \<in> set s. c \<in> {CHR 0x09, CHR 0x0A, CHR 0x0B, CHR 0x0C, CHR 0x0D, CHR 0x20, CHR 0xA0})"

text \<open>
  The inner \<open>setNaclFiles\<close> of the closure, which only writes the store (named \<open>storeFiles\<close>
  here; the exposed \<open>setNaclFiles\<close> is below), and the common tail of the mutating operations
  (\<open>ingest\<close>): build the next state and publish it.
\<close>

definition storeFiles :: "naclFile list \<Rightarrow> naclSource \<Rightarrow> naclSource" where
  "storeFiles naclFiles src =
     (let emptyNaclFiles = filter (\<lambda>f. isBlank (buffer f)) naclFiles;
          nonEmptyNaclFiles = filter (\<lambda>f. \<not> isBlank (buffer f)) naclFiles;
          store1 = foldl (\<lambda>st f. AList.update (naclFilename f) f st) (naclFilesStore src)
                     nonEmptyNaclFiles;
          store2 = foldl (\<lambda>st f. AList.delete (naclFilename f) st) store1 emptyNaclFiles
      in src\<lparr> naclFilesStore := store2 \<rparr>)"

definition ingest :: "externals \<Rightarrow> parsedNaclFile list \<Rightarrow> change list io" where
  "ingest ext parsedFiles =
     bindE (buildNaclFilesStateInner ext parsedFiles) (\<lambda>res src.
       (Inr (changes res), src\<lparr> sourceState := Some (Resolved (state res)) \<rparr>))"

definition setNaclFiles :: "externals \<Rightarrow> naclFile list \<Rightarrow> change list io" where
  "setNaclFiles ext naclFiles src =
     bindE (parseNaclFiles ext naclFiles) (ingest ext) (storeFiles naclFiles src)"


datatype clearArgs =
  ClearArgs (nacl: "bool option") (staticResources: "bool option") (cacheArg: "bool option")

definition truthy :: "bool option \<Rightarrow> bool" where
  "truthy b = (b = Some True)"

definition clear :: "clearArgs option \<Rightarrow> unit io" where
  "clear argsOpt src =
     (let args = (case argsOpt of
                    None \<Rightarrow> ClearArgs (Some True) (Some True) (Some True)
                  | Some a \<Rightarrow> a)
      in if truthy (staticResources args) \<and> \<not> (truthy (cacheArg args) \<and> truthy (nacl args))
         then (Inl (Error ''Cannot clear static resources without clearing the cache and nacls''),
               src)
         else (Inr (),
               src\<lparr> staticFileSource :=
                      (if truthy (staticResources args) then [] else staticFileSource src),
                    naclFilesStore := (if truthy (nacl args) then [] else naclFilesStore src),
                    cache := (if truthy (cacheArg args) then Map.empty else cache src),
                    sourceState := None \<rparr>))"

text \<open>
  \<open>updateNaclFiles\<close>. Modelled from the spec: \<open>getChangeElement\<close> (adapter-api) is missing; it
  is the element a change is about, the one before a removal and the one after otherwise.
  \<open>updateFile\<close> is the body of the per-file task with its \<open>try\<close> and \<open>catch\<close>: a thrown error
  gives \<open>None\<close> (undefined in the source).
\<close>

text \<open>
  \<open>String.prototype.toLowerCase\<close> on code units below 256: the letters A to Z and the
  capital letters of the Latin-1 block (192 to 222, without the multiplication sign 215) move
  up by 32.
\<close>

definition lowerChar :: "char \<Rightarrow> char" where
  "lowerChar c =
     (let n = (of_char c :: nat)
      in if (65 \<le> n \<and> n \<le> 90) \<or> (192 \<le> n \<and> n \<le> 222 \<and> n \<noteq> 215)
         then char_of (n + 32) else c)"

definition toLowerCase :: "string \<Rightarrow> string" where
  "toLowerCase s = map lowerChar s"

definition getChangeElement :: "detailedChange \<Rightarrow> changeData option" where
  "getChangeElement c = (if action c = Remove then dataBefore c else dataAfter c)"

definition removeDanglingStaticFiles ::
  "externals \<Rightarrow> detailedChangeWithSource list \<Rightarrow> naclSource \<Rightarrow> naclSource" where
  "removeDanglingStaticFiles ext fileChanges src =
     (let files = concat (map (\<lambda>c. case getChangeElement c of
                                      None \<Rightarrow> []
                                    | Some d \<Rightarrow> getNestedStaticFiles ext d)
                     (filter (\<lambda>c. action c = Remove) (map detailed fileChanges)))
      in src\<lparr> staticFileSource := filter (\<lambda>f. f \<notin> set files) (staticFileSource src) \<rparr>)"

definition createNaclFileFromChange ::
  "string \<Rightarrow> element \<Rightarrow> string \<Rightarrow> naclSource \<Rightarrow> parsedNaclFile \<times> naclSource" where
  "createNaclFileFromChange fname after fileData src =
     (let elems = [after];
          parsed = \<lparr> filename = fname, elements = elems, errors = [], timestamp = clock src,
                     referenced = getElementsReferences elems \<rparr>;
          key = cacheResultKey (clock src) (Some (filename parsed)) (Some (timestamp parsed))
                  (Some fileData)
      in (parsed, src\<lparr> cache := (cache src)(key \<mapsto> ParseResult elems [] None) \<rparr>))"

definition wholeElementAddition ::
  "string \<Rightarrow> detailedChangeWithSource list \<Rightarrow> element option" where
  "wholeElementAddition naclFileData fileChanges =
     (case fileChanges of
        [c] \<Rightarrow>
          (if naclFileData = [] \<and> action (detailed c) = Add
           then (case dataAfter (detailed c) of Some (DataElement e) \<Rightarrow> Some e | _ \<Rightarrow> None)
           else None)
      | _ \<Rightarrow> None)"

definition getNaclFileData :: "string \<Rightarrow> naclSource \<Rightarrow> string" where
  "getNaclFileData fname src =
     (case map_of (naclFilesStore src) fname of None \<Rightarrow> [] | Some naclFile \<Rightarrow> buffer naclFile)"

definition updateFile ::
  "externals \<Rightarrow> detailedChangeWithSource list \<Rightarrow> naclSource \<Rightarrow>
   (parsedNaclFile \<times> string) option \<times> naclSource" where
  "updateFile ext fileChanges src =
     (case sort (map (\<lambda>c. rangeFilename (location c)) fileChanges) of
        [] \<Rightarrow> (None, src)
      | fname # _ \<Rightarrow>
          (let naclFileData = getNaclFileData fname src
           in case updateNaclFileData ext naclFileData fileChanges of
                Inl e \<Rightarrow> (None, src)
              | Inr buf \<Rightarrow>
                  (case wholeElementAddition naclFileData fileChanges of
                     Some after \<Rightarrow>
                       (let created = createNaclFileFromChange fname after buf src
                        in (Some (fst created, buf),
                            removeDanglingStaticFiles ext fileChanges (snd created)))
                   | None \<Rightarrow>
                       (case parseNaclFile ext (NaclFile buf fname None) src of
                          (Inl e, src1) \<Rightarrow> (None, src1)
                        | (Inr parseRes, src1) \<Rightarrow>
                            (Some (toParsedNaclFile (clock src1) (NaclFile buf fname None) parseRes,
                                   buf),
                             removeDanglingStaticFiles ext fileChanges src1)))))"

fun updateFiles ::
  "externals \<Rightarrow> (string \<times> detailedChangeWithSource list) list \<Rightarrow> naclSource \<Rightarrow>
   (parsedNaclFile \<times> string) list \<times> naclSource" where
  "updateFiles ext [] src = ([], src)"
| "updateFiles ext (g # gs) src =
     (let r = updateFile ext (snd g) src;
          rs = updateFiles ext gs (snd r)
      in ((case fst r of None \<Rightarrow> fst rs | Some u \<Rightarrow> u # fst rs), snd rs))"

text \<open>
  The pair \<open>[parsedNaclFiles[naclFile].filename, await getSourceMap(...)]\<close> of one file. An
  inherited value has no file name: the pair is then keyed \<open>undefined\<close>.
\<close>

definition sourceMapPair ::
  "externals \<Rightarrow> naclFilesState \<Rightarrow> string \<Rightarrow> (string \<times> sourceMap) io" where
  "sourceMapPair ext s naclFile =
     (case getProperty (map_of (parsedNaclFiles s)) naclFile of
        Undefined \<Rightarrow> throwE (TypeError ''Cannot read property filename of undefined'')
      | Own p \<Rightarrow> bindE (getSourceMap ext (filename p)) (\<lambda>sm. returnE (filename p, sm))
      | Inherited n \<Rightarrow> bindE (getSourceMapOf ext None) (\<lambda>sm. returnE (''undefined'', sm)))"

definition fileGroups ::
  "externals \<Rightarrow> detailedChange list \<Rightarrow> (string \<times> detailedChangeWithSource list) list io" where
  "fileGroups ext changeList =
     bindE (mapIO (\<lambda>c. getElementNaclFiles ext (fst (createTopLevelParentID (changeId c))))
              changeList) (\<lambda>found.
     bindE (getState ext) (\<lambda>s.
     bindE (mapIO (sourceMapPair ext s) (uniq (concat found))) (\<lambda>pairs.
       (let changedFileToSourceMap = fromPairs pairs;
            mergedSourceMap = foldl mergeSourceMap [] (map snd changedFileToSourceMap);
            changesToUpdate = getChangesToUpdate ext changeList mergedSourceMap
        in returnE
             (groupBy (\<lambda>c. toLowerCase (rangeFilename (location c)))
                (concat (map (\<lambda>c. getChangeLocations ext c mergedSourceMap) changesToUpdate)))))))"

definition toNaclFile :: "parsedNaclFile \<times> string \<Rightarrow> naclFile" where
  "toNaclFile u = NaclFile (snd u) (filename (fst u)) (Some (timestamp (fst u)))"

definition updateNaclFiles :: "externals \<Rightarrow> detailedChange list \<Rightarrow> change list io" where
  "updateNaclFiles ext changeList =
     bindE (fileGroups ext changeList) (\<lambda>groups src.
       (let r = updateFiles ext groups src;
            updatedNaclFiles = fst r
        in if updatedNaclFiles \<noteq> []
           then ingest ext (map fst updatedNaclFiles)
                  (storeFiles (map toNaclFile updatedNaclFiles) (snd r))
           else (Inr [], snd r)))"

section \<open>Auxiliary notions for the statements\<close>

text \<open>
  The entry of an index as a list (a missing entry reads as the empty list), the files of a
  list that hold a fragment of an identity or reference it, and well-formedness of the file
  map: distinct keys in the order of own keys, every entry stored under its own file name.
\<close>

definition idxList :: "(string \<rightharpoonup> string list) \<Rightarrow> string \<Rightarrow> string list" where
  "idxList idx n = (case idx n of None \<Rightarrow> [] | Some s \<Rightarrow> s)"

definition filesWith :: "string \<Rightarrow> parsedNaclFile list \<Rightarrow> string list" where
  "filesWith n ps = map filename (filter (\<lambda>p. n \<in> fullNameOf ` set (elements p)) ps)"

definition filesReferencing :: "string \<Rightarrow> parsedNaclFile list \<Rightarrow> string list" where
  "filesReferencing n ps = map filename (filter (\<lambda>p. n \<in> set (referenced p)) ps)"

definition keysMatch :: "parsedNaclFileMap \<Rightarrow> bool" where
  "keysMatch m = (\<forall>(k, p) \<in> set m. filename p = k)"

definition wfParsed :: "parsedNaclFileMap \<Rightarrow> bool" where
  "wfParsed m = (distinct (map fst m) \<and> keysMatch m \<and> ownKeyOrder m = m)"

text \<open>
  The index build throws exactly when a full name it has to enter is a property name of
  \<open>Object.prototype\<close>: a file map is indexable when no element and no referenced identity of
  its files has such a name. \<open>indicesOf\<close> is the index build written without its error
  branch; \<open>buildIndices_indexable\<close> below shows that \<open>buildIndices\<close> returns it on every
  indexable file map.
\<close>

definition fileIndexable :: "parsedNaclFile \<Rightarrow> bool" where
  "fileIndexable p =
     ((\<forall>e \<in> set (elements p). fullNameOf e \<notin> set objectPrototypeNames) \<and>
      (\<forall>n \<in> set (referenced p). n \<notin> set objectPrototypeNames))"

definition indexable :: "parsedNaclFileMap \<Rightarrow> bool" where
  "indexable m = (\<forall>kp \<in> set m. fileIndexable (snd kp))"

definition insertFile ::
  "(string \<rightharpoonup> string list) \<Rightarrow> string \<Rightarrow> string \<Rightarrow> (string \<rightharpoonup> string list)" where
  "insertFile idx elementFullName file =
     idx(elementFullName \<mapsto>
       setAdd (case idx elementFullName of None \<Rightarrow> [] | Some s \<Rightarrow> s) file)"

definition indexFile ::
  "(string \<rightharpoonup> string list) \<times> (string \<rightharpoonup> string list) \<Rightarrow> parsedNaclFile \<Rightarrow>
   (string \<rightharpoonup> string list) \<times> (string \<rightharpoonup> string list)" where
  "indexFile idxs naclFile =
     (foldl (\<lambda>idx element. insertFile idx (fullNameOf element) (filename naclFile))
        (fst idxs) (elements naclFile),
      foldl (\<lambda>idx r. insertFile idx r (filename naclFile))
        (snd idxs) (referenced naclFile))"

definition indicesOf ::
  "parsedNaclFileMap \<Rightarrow> (string \<rightharpoonup> string list) \<times> (string \<rightharpoonup> string list)" where
  "indicesOf allParsed = foldl indexFile (Map.empty, Map.empty) (map snd allParsed)"

text \<open>
  The states the source can hold: built by a cold start, or by a warm transition from such a
  state.
\<close>

inductive reachable :: "(element list \<Rightarrow> element \<times> mergeError list) \<Rightarrow> naclFilesState \<Rightarrow> bool"
  for mg :: "element list \<Rightarrow> element \<times> mergeError list" where
  cold: "buildNaclFilesState mg newNaclFiles None = Inr r \<Longrightarrow> reachable mg (state r)"
| warm: "reachable mg cs \<Longrightarrow> buildNaclFilesState mg newNaclFiles (Some cs) = Inr r \<Longrightarrow>
         reachable mg (state r)"

definition elementsOfFile :: "parsedNaclFileMap \<Rightarrow> string \<Rightarrow> element list" where
  "elementsOfFile m f = (case map_of m f of None \<Rightarrow> [] | Some p \<Rightarrow> elements p)"

text \<open>
  The result of the warm path written without its error branches; \<open>warm_Inr\<close> below shows
  when \<open>buildNaclFilesState\<close> returns it.
\<close>

definition warmResult ::
  "(element list \<Rightarrow> element \<times> mergeError list) \<Rightarrow> parsedNaclFile list \<Rightarrow> naclFilesState \<Rightarrow>
   buildNaclFilesStateResult" where
  "warmResult mg newNaclFiles cs =
     (let allParsed = allParsedOf (parsedNaclFiles cs) newNaclFiles;
          idxs = indicesOf allParsed;
          ids = relevantElementIDsOf (parsedNaclFiles cs) newNaclFiles;
          files = relevantFilesOf (fst idxs) ids;
          es = concat (map (\<lambda>f. filter (\<lambda>e. fullNameOf e \<in> set ids)
                              (elementsOfFile allParsed (propertyKey f))) files);
          res = buildNewMergedElementsAndErrors mg es ids (mergedElements cs) (mergeErrors cs)
      in \<lparr> state = \<lparr> parsedNaclFiles = allParsed, elementsIndex = fst idxs,
                     mergedElements = newMergedElements res, mergeErrors = newMergeErrors res,
                     referencedIndex = snd idxs \<rparr>,
           changes = newChanges res \<rparr>)"

section \<open>The contract of the merge engine and consistency of a state\<close>

text \<open>
  Two properties of the combiner \<open>mg\<close> of the merge engine. The spec gives the first: the
  merged element is the one combined view of the fragments of an identity, so it carries that
  identity, and its merge errors are attached to that identity. The second is not given by the
  spec, which lets the order of the fragments decide between conflicting values: the result
  does not depend on the order in which the fragments arrive. The amended claims about the
  equality of the warm and the cold path hold for the combiners that have both
  (\<open>mergeContract\<close>).
\<close>

definition mergeKeepsIdentity :: "(element list \<Rightarrow> element \<times> mergeError list) \<Rightarrow> bool" where
  "mergeKeepsIdentity mg =
     (\<forall>xs n. xs \<noteq> [] \<and> (\<forall>e \<in> set xs. fullNameOf e = n) \<longrightarrow>
        fullNameOf (fst (mg xs)) = n \<and> (\<forall>err \<in> set (snd (mg xs)). errTopLevelName err = n))"

definition mergeOrderInsensitive :: "(element list \<Rightarrow> element \<times> mergeError list) \<Rightarrow> bool" where
  "mergeOrderInsensitive mg =
     (\<forall>xs ys n. (\<forall>e \<in> set xs. fullNameOf e = n) \<and> mset xs = mset ys \<longrightarrow> mg xs = mg ys)"

definition mergeContract :: "(element list \<Rightarrow> element \<times> mergeError list) \<Rightarrow> bool" where
  "mergeContract mg = (mergeOrderInsensitive mg \<and> mergeKeepsIdentity mg)"

text \<open>
  The elements of a file map, and what the merge engine makes of an element list, identity by
  identity.
\<close>

definition allElements :: "parsedNaclFileMap \<Rightarrow> element list" where
  "allElements m = concat (map (\<lambda>kp. elements (snd kp)) m)"

definition mergedOf ::
  "(element list \<Rightarrow> element \<times> mergeError list) \<Rightarrow> element list \<Rightarrow> string \<Rightarrow> element option" where
  "mergedOf mg es n = (if fragmentsOf n es = [] then None else Some (fst (mg (fragmentsOf n es))))"

definition errorsOf ::
  "(element list \<Rightarrow> element \<times> mergeError list) \<Rightarrow> element list \<Rightarrow> string \<Rightarrow> mergeError multiset" where
  "errorsOf mg es n = (if fragmentsOf n es = [] then {#} else mset (snd (mg (fragmentsOf n es))))"

definition errorsAll ::
  "(element list \<Rightarrow> element \<times> mergeError list) \<Rightarrow> element list \<Rightarrow> mergeError multiset" where
  "errorsAll mg es = (\<Sum>n \<in> fullNameOf ` set es. errorsOf mg es n)"

text \<open>
  A state is consistent when its merged elements and merge errors are those the merge engine
  yields on all elements of its file map.
\<close>

definition consistent ::
  "(element list \<Rightarrow> element \<times> mergeError list) \<Rightarrow> naclFilesState \<Rightarrow> bool" where
  "consistent mg s =
     (wfParsed (parsedNaclFiles s) \<and>
      mergedElements s = mergedOf mg (allElements (parsedNaclFiles s)) \<and>
      mset (mergeErrors s) = errorsAll mg (allElements (parsedNaclFiles s)))"


definition noEmptyEntries :: "parsedNaclFileMap \<Rightarrow> bool" where
  "noEmptyEntries m = (\<forall>kp \<in> set m. elements (snd kp) \<noteq> [] \<or> errors (snd kp) \<noteq> [])"

text \<open>
  The batches whose elements have no property name of \<open>Object.prototype\<close> as their full name.
\<close>

definition plainNames :: "parsedNaclFile list \<Rightarrow> bool" where
  "plainNames batch =
     (\<forall>p \<in> set batch. \<forall>e \<in> set (elements p). fullNameOf e \<notin> set objectPrototypeNames)"




section \<open>Example inputs\<close>

text \<open>
  A concrete combiner for the fragments of one identity: a single fragment is the merged
  element; several fragments give a conflict marker and one merge error on the identity.
\<close>

definition exMerge :: "element list \<Rightarrow> element \<times> mergeError list" where
  "exMerge es =
     (case es of
        [] \<Rightarrow> (Variable (ElemID IdVar [] []) (Primitive (PBoolean False)), [])
      | e # rest \<Rightarrow>
          if rest = [] then (e, [])
          else (Variable (ElemID IdType (fullNameOf e) []) (Primitive (PString ''conflict'')),
                [MergeError (ElemID IdType (fullNameOf e) []) ''duplicate definitions'']))"

definition exTypeX :: element where
  "exTypeX = ObjectType (ElemID IdType ''x'' []) [] [] []"

definition exTypeY :: element where
  "exTypeY = PrimitiveType (ElemID IdType ''y'' []) [] []"

definition exFileA :: parsedNaclFile where
  "exFileA = \<lparr> filename = ''a.nacl'', elements = [exTypeX], errors = [], timestamp = 1,
               referenced = [] \<rparr>"

definition exFileB :: parsedNaclFile where
  "exFileB = \<lparr> filename = ''b.nacl'', elements = [exTypeX, exTypeY], errors = [], timestamp = 2,
               referenced = [''x''] \<rparr>"

definition exFileC :: parsedNaclFile where
  "exFileC = \<lparr> filename = ''c.nacl'', elements = [exTypeY], errors = [], timestamp = 4,
               referenced = [] \<rparr>"

definition exFileAEmpty :: parsedNaclFile where
  "exFileAEmpty = \<lparr> filename = ''a.nacl'', elements = [], errors = [], timestamp = 3,
                    referenced = [] \<rparr>"

definition exState :: naclFilesState where
  "exState = state (projr (buildNaclFilesState exMerge [exFileA, exFileB] None))"

text \<open>
  A combiner that lets the order of the fragments decide, as the spec describes the merge of
  conflicting values: the first fragment is the merged element, and fragments that differ from
  it give one merge error on the identity. Two fragments of \<open>x\<close> with conflicting annotation
  values, a fragment of \<open>a\<close>, and files that hold them.
\<close>

definition exMergeFirst :: "element list \<Rightarrow> element \<times> mergeError list" where
  "exMergeFirst es =
     (case es of
        [] \<Rightarrow> (Variable (ElemID IdVar [] []) (Primitive (PBoolean False)), [])
      | e # rest \<Rightarrow>
          (e, if \<forall>r \<in> set rest. r = e then []
              else [MergeError (ElemID IdType (fullNameOf e) []) ''conflicting values'']))"

definition exX1 :: element where
  "exX1 = ObjectType (ElemID IdType ''x'' []) [] [] [(''v'', Primitive (PNumber 1))]"

definition exX2 :: element where
  "exX2 = ObjectType (ElemID IdType ''x'' []) [] [] [(''v'', Primitive (PNumber 2))]"

definition exA :: element where
  "exA = ObjectType (ElemID IdType ''a'' []) [] [] []"




definition exFile1 :: parsedNaclFile where
  "exFile1 = \<lparr> filename = ''1.nacl'', elements = [exA], errors = [], timestamp = 1,
               referenced = [] \<rparr>"

definition exFile2 :: parsedNaclFile where
  "exFile2 = \<lparr> filename = ''2.nacl'', elements = [exX1], errors = [], timestamp = 1,
               referenced = [] \<rparr>"

definition exFile3 :: parsedNaclFile where
  "exFile3 = \<lparr> filename = ''3.nacl'', elements = [exA, exX2], errors = [], timestamp = 1,
               referenced = [] \<rparr>"



definition exState123 :: naclFilesState where
  "exState123 =
     state (projr (buildNaclFilesState exMergeFirst [exFile1, exFile2, exFile3] None))"


text \<open>
  The reference expressions found anywhere in a value, and the roots of the value tree of an
  element.
\<close>

fun refsIn :: "val \<Rightarrow> ElemID list" where
  "refsIn (Primitive p) = []"
| "refsIn (ReferenceExpression r) = [r]"
| "refsIn (ListValue vs) = concat (map refsIn vs)"
| "refsIn (RecordValue kvs) = concat (map (\<lambda>kv. refsIn (snd kv)) kvs)"

fun valueTree :: "element \<Rightarrow> val list" where
  "valueTree (InstanceElement i t v ats anns) = map snd v @ map snd anns"
| "valueTree (ObjectType i fs ats anns) =
     map snd anns @ concat (map (\<lambda>nf. map snd (snd (snd nf))) fs)"
| "valueTree (PrimitiveType i ats anns) = map snd anns"
| "valueTree (ContainerType i inner) = []"
| "valueTree (Variable i v) = [v]"

definition fieldRefs :: "transformFuncArgs \<Rightarrow> string list \<Rightarrow> string list" where
  "fieldRefs args referencedSet =
     (case tfField args of
        None \<Rightarrow> referencedSet
      | Some field \<Rightarrow>
          (case tfPath args of
             None \<Rightarrow> referencedSet
           | Some path \<Rightarrow>
               if \<not> isIndexPathPart (name path)
               then setAdd referencedSet
                      (getFullName (getTypeOrContainerTypeID (fieldType field)))
               else referencedSet))"

definition exTypeT :: element where
  "exTypeT = ObjectType (ElemID IdType ''t'' [])
     [(''f'', (ContainerType (ElemID IdType ''list<y>'' []) exTypeY, []))] [] []"

definition exInstance :: element where
  "exInstance = InstanceElement (ElemID IdInstance ''inst'' []) exTypeT
     [(''f'', ListValue [ReferenceExpression (ElemID IdField ''a'' [''b'', ''c''])])] [] []"

definition exExt :: externals where
  "exExt = \<lparr> parse = (\<lambda>buf fname.
                 if buf = ''!'' then Inl (Error ''parse exception'')
                 else if buf = [] then Inr ([], [], [])
                 else Inr ([ObjectType (ElemID IdType buf []) [] [] []], [], [])),
             mergeFragments = exMerge,
             resolvePath = (\<lambda>fragment i. True),
             getChangesToUpdate = (\<lambda>cs sm. cs),
             getChangeLocations = (\<lambda>c sm.
                 [DetailedChangeWithSource c
                    (SourceRange (topLevelName (changeId c) @ ''.nacl'') 0 0)]),
             updateNaclFileData = (\<lambda>data cs.
                 if data = ''locked'' then Inl (Error ''malformed edit'') else Inr (data @ ''y'')),
             getNestedStaticFiles = (\<lambda>d. []) \<rparr>"

definition exSource :: naclSource where
  "exSource = \<lparr> naclFilesStore = [(''a.nacl'', NaclFile ''x'' ''a.nacl'' (Some 1))],
                cache = Map.empty, staticFileSource = [''blob''], sourceState = None,
                clock = 7 \<rparr>"


text \<open>A source whose state is built: it holds the two files of \<open>exState\<close>.\<close>

definition exSource3 :: naclSource where
  "exSource3 = \<lparr> naclFilesStore = [(''a.nacl'', NaclFile ''x'' ''a.nacl'' (Some 1)),
                                  (''b.nacl'', NaclFile ''y'' ''b.nacl'' (Some 2))],
                 cache = Map.empty, staticFileSource = [],
                 sourceState = Some (Resolved exState), clock = 7 \<rparr>"



text \<open>
  A source with one file whose edited text declares an element named by a property of
  \<open>Object.prototype\<close>, and the change that edits it.
\<close>

definition exSourceProto :: naclSource where
  "exSourceProto = \<lparr> naclFilesStore = [(''p.nacl'', NaclFile ''hasOwnPropert'' ''p.nacl'' (Some 1))],
                     cache = Map.empty, staticFileSource = [], sourceState = None, clock = 7 \<rparr>"

definition exChangesProto :: "detailedChange list" where
  "exChangesProto = [DetailedChange (ElemID IdType ''p'' []) Modify None None]"

section \<open>Properties\<close>

lemma set_foldl_setAdd: "set (foldl setAdd s xs) = set s \<union> set xs"
  by (induction xs arbitrary: s) (auto simp: setAdd_def)

lemma distinct_foldl_setAdd: "distinct s \<Longrightarrow> distinct (foldl setAdd s xs)"
  by (induction xs arbitrary: s) (auto simp: setAdd_def)

lemma set_uniq: "set (uniq xs) = set xs"
  by (simp add: uniq_def set_foldl_setAdd)

lemma distinct_uniq: "distinct (uniq xs)"
  by (simp add: uniq_def distinct_foldl_setAdd)

lemma setAdd_idem: "setAdd (setAdd s x) x = setAdd s x"
  by (simp add: setAdd_def)

subsection \<open>The order of own keys\<close>

lemma set_ownKeyOrder: "set (ownKeyOrder obj) = set obj"
  by (auto simp: ownKeyOrder_def)

lemma mset_ownKeyOrder: "mset (ownKeyOrder obj) = mset obj"
  by (simp add: ownKeyOrder_def)

lemma distinct_ownKeyOrder: "distinct (map fst (ownKeyOrder obj)) = distinct (map fst obj)"
proof -
  have "mset (map fst (ownKeyOrder obj)) = mset (map fst obj)"
    by (simp only: mset_map mset_ownKeyOrder)
  then show ?thesis by (rule mset_eq_imp_distinct_iff)
qed

lemma map_of_ownKeyOrder: "distinct (map fst obj) \<Longrightarrow> map_of (ownKeyOrder obj) = map_of obj"
  by (subst map_of_inject_set) (simp_all add: distinct_ownKeyOrder set_ownKeyOrder)

lemma ownKeyOrder_filter: "ownKeyOrder (filter P obj) = filter P (ownKeyOrder obj)"
proof -
  have "filter (\<lambda>kv. isArrayIndex (fst kv)) (filter P obj) =
        filter P (filter (\<lambda>kv. isArrayIndex (fst kv)) obj)"
    by (simp add: conj_commute)
  moreover have "filter (\<lambda>kv. \<not> isArrayIndex (fst kv)) (filter P obj) =
        filter P (filter (\<lambda>kv. \<not> isArrayIndex (fst kv)) obj)"
    by (simp add: conj_commute)
  ultimately show ?thesis
    by (simp only: ownKeyOrder_def filter_append filter_sort)
qed

lemma ownKeyOrder_idem: "ownKeyOrder (ownKeyOrder obj) = ownKeyOrder obj"
proof -
  let ?f = "\<lambda>kv :: string \<times> 'a. indexValue (fst kv)"
  let ?I = "\<lambda>kv :: string \<times> 'a. isArrayIndex (fst kv)"
  let ?A = "sort_key ?f (filter ?I obj)"
  let ?B = "filter (\<lambda>kv. \<not> ?I kv) obj"
  have a: "filter ?I ?A = ?A" by (rule filter_True) simp
  have b: "filter ?I ?B = []" by (simp add: filter_empty_conv)
  have c: "filter (\<lambda>kv. \<not> ?I kv) ?A = []" by (simp add: filter_empty_conv)
  have d: "filter (\<lambda>kv. \<not> ?I kv) ?B = ?B" by (rule filter_True) simp
  have e: "sort_key ?f ?A = ?A" by (rule sort_key_id_if_sorted) (rule sorted_sort_key)
  have "ownKeyOrder (?A @ ?B) = ?A @ ?B"
    unfolding ownKeyOrder_def[of "?A @ ?B"] filter_append a b c d by (simp add: e)
  then show ?thesis by (simp only: ownKeyOrder_def[of obj])
qed

lemma ownKeyOrder_Nil: "ownKeyOrder [] = []"
  by (simp add: ownKeyOrder_def)

subsection \<open>The index build\<close>

lemma idxList_insertFile:
  "idxList (insertFile idx m f) n = (if n = m then setAdd (idxList idx n) f else idxList idx n)"
  by (simp add: idxList_def insertFile_def)

lemma insertFile_None: "(insertFile idx m f n = None) = (idx n = None \<and> n \<noteq> m)"
  by (simp add: insertFile_def)

lemma idxList_foldl_insertFile:
  "idxList (foldl (\<lambda>idx x. insertFile idx (g x) f) idx xs) n =
     (if n \<in> g ` set xs then setAdd (idxList idx n) f else idxList idx n)"
  by (induction xs arbitrary: idx) (auto simp: idxList_insertFile setAdd_idem)

lemma foldl_insertFile_None:
  "(foldl (\<lambda>idx x. insertFile idx (g x) f) idx xs n = None) = (idx n = None \<and> n \<notin> g ` set xs)"
  by (induction xs arbitrary: idx) (auto simp: insertFile_None)

lemma fst_indexFile:
  "fst (indexFile idxs p) =
     foldl (\<lambda>idx element. insertFile idx (fullNameOf element) (filename p)) (fst idxs) (elements p)"
  by (simp add: indexFile_def)

lemma snd_indexFile:
  "snd (indexFile idxs p) =
     foldl (\<lambda>idx r. insertFile idx r (filename p)) (snd idxs) (referenced p)"
  by (simp add: indexFile_def)

lemma idxList_fst_foldl_indexFile:
  "idxList (fst (foldl indexFile idxs ps)) n = foldl setAdd (idxList (fst idxs) n) (filesWith n ps)"
proof (induction ps arbitrary: idxs)
  case Nil
  then show ?case by (simp add: filesWith_def)
next
  case (Cons p ps)
  show ?case
    by (simp add: Cons.IH fst_indexFile idxList_foldl_insertFile filesWith_def)
qed

lemma fst_foldl_indexFile_None:
  "(fst (foldl indexFile idxs ps) n = None) = (fst idxs n = None \<and> filesWith n ps = [])"
proof (induction ps arbitrary: idxs)
  case Nil
  then show ?case by (simp add: filesWith_def)
next
  case (Cons p ps)
  show ?case
    by (auto simp: Cons.IH fst_indexFile foldl_insertFile_None filesWith_def)
qed

lemma idxList_snd_foldl_indexFile:
  "idxList (snd (foldl indexFile idxs ps)) n =
     foldl setAdd (idxList (snd idxs) n) (filesReferencing n ps)"
proof (induction ps arbitrary: idxs)
  case Nil
  then show ?case by (simp add: filesReferencing_def)
next
  case (Cons p ps)
  show ?case
    by (simp add: Cons.IH snd_indexFile idxList_foldl_insertFile[where g="\<lambda>x. x", simplified] filesReferencing_def)
qed

lemma snd_foldl_indexFile_None:
  "(snd (foldl indexFile idxs ps) n = None) = (snd idxs n = None \<and> filesReferencing n ps = [])"
proof (induction ps arbitrary: idxs)
  case Nil
  then show ?case by (simp add: filesReferencing_def)
next
  case (Cons p ps)
  show ?case
    by (auto simp: Cons.IH snd_indexFile foldl_insertFile_None[where g="\<lambda>x. x", simplified] filesReferencing_def)
qed

lemma elementsIndex_char:
  "fst (indicesOf m) n =
     (if filesWith n (map snd m) = [] then None else Some (uniq (filesWith n (map snd m))))"
proof (cases "fst (indicesOf m) n")
  case None
  then show ?thesis
    by (simp add: indicesOf_def fst_foldl_indexFile_None)
next
  case (Some fs)
  have "idxList (fst (indicesOf m)) n = uniq (filesWith n (map snd m))"
    using idxList_fst_foldl_indexFile[of "(Map.empty, Map.empty)" "map snd m" n]
    by (simp add: indicesOf_def uniq_def idxList_def)
  moreover have "filesWith n (map snd m) \<noteq> []"
    using Some fst_foldl_indexFile_None[of "(Map.empty, Map.empty)" "map snd m" n]
    by (simp add: indicesOf_def)
  ultimately show ?thesis using Some by (simp add: idxList_def)
qed

lemma referencedIndex_char:
  "snd (indicesOf m) n =
     (if filesReferencing n (map snd m) = [] then None
      else Some (uniq (filesReferencing n (map snd m))))"
proof (cases "snd (indicesOf m) n")
  case None
  then show ?thesis
    by (simp add: indicesOf_def snd_foldl_indexFile_None)
next
  case (Some fs)
  have "idxList (snd (indicesOf m)) n = uniq (filesReferencing n (map snd m))"
    using idxList_snd_foldl_indexFile[of "(Map.empty, Map.empty)" "map snd m" n]
    by (simp add: indicesOf_def uniq_def idxList_def)
  moreover have "filesReferencing n (map snd m) \<noteq> []"
    using Some snd_foldl_indexFile_None[of "(Map.empty, Map.empty)" "map snd m" n]
    by (simp add: indicesOf_def)
  ultimately show ?thesis using Some by (simp add: idxList_def)
qed

text \<open>
  The index build of the source against \<open>indicesOf\<close>: an index set never owns a property name
  of \<open>Object.prototype\<close>, so entering such a name always throws.
\<close>

lemma addToIndex_plain:
  "n \<notin> set objectPrototypeNames \<Longrightarrow> addToIndex nm idx n f = Inr (insertFile idx n f)"
  by (simp add: addToIndex_def getProperty_def insertFile_def split: option.splits)

lemma addToIndex_proto:
  "n \<in> set objectPrototypeNames \<Longrightarrow> idx n = None \<Longrightarrow>
   addToIndex nm idx n f = Inl (TypeError (nm @ ''[elementFullName].add is not a function''))"
  by (simp add: addToIndex_def getProperty_def)

lemma dom_insertFile: "dom (insertFile idx n f) = insert n (dom idx)"
  by (auto simp: insertFile_def)

lemma dom_foldl_insertFile:
  "dom (foldl (\<lambda>idx x. insertFile idx (g x) f) idx xs) = dom idx \<union> g ` set xs"
  by (induction xs arbitrary: idx) (auto simp: dom_insertFile)

lemma forEachE_addToIndex_plain:
  "\<forall>x \<in> set xs. g x \<notin> set objectPrototypeNames \<Longrightarrow>
   forEachE (\<lambda>idx x. addToIndex nm idx (g x) f) idx xs =
     Inr (foldl (\<lambda>idx x. insertFile idx (g x) f) idx xs)"
  by (induction xs arbitrary: idx) (simp_all add: addToIndex_plain)

lemma forEachE_addToIndex_proto:
  assumes "dom idx \<inter> set objectPrototypeNames = {}"
    and "\<exists>x \<in> set xs. g x \<in> set objectPrototypeNames"
  shows "forEachE (\<lambda>idx x. addToIndex nm idx (g x) f) idx xs =
     Inl (TypeError (nm @ ''[elementFullName].add is not a function''))"
  using assms
proof (induction xs arbitrary: idx)
  case Nil
  then show ?case by simp
next
  case (Cons x xs)
  show ?case
  proof (cases "g x \<in> set objectPrototypeNames")
    case True
    then have "idx (g x) = None" using Cons.prems(1) by auto
    then show ?thesis using True by (simp add: addToIndex_proto)
  next
    case False
    then have r: "\<exists>x \<in> set xs. g x \<in> set objectPrototypeNames" using Cons.prems(2) by auto
    have d: "dom (insertFile idx (g x) f) \<inter> set objectPrototypeNames = {}"
      using Cons.prems(1) False by (auto simp: dom_insertFile)
    show ?thesis using False Cons.IH[OF d r] by (simp add: addToIndex_plain)
  qed
qed

lemma indexNaclFile_indexable:
  "fileIndexable p \<Longrightarrow> indexNaclFile idxs p = Inr (indexFile idxs p)"
  by (simp add: indexNaclFile_def indexFile_def fileIndexable_def
      forEachE_addToIndex_plain[where g=fullNameOf]
      forEachE_addToIndex_plain[where g="\<lambda>x. x"])

lemma indexNaclFile_throws:
  assumes "dom (fst idxs) \<inter> set objectPrototypeNames = {}"
    and "dom (snd idxs) \<inter> set objectPrototypeNames = {}"
    and "\<not> fileIndexable p"
  shows "\<exists>msg. indexNaclFile idxs p = Inl (TypeError msg)"
proof (cases "\<forall>e \<in> set (elements p). fullNameOf e \<notin> set objectPrototypeNames")
  case True
  then have r: "\<exists>n \<in> set (referenced p). (\<lambda>x. x) n \<in> set objectPrototypeNames"
    using assms(3) by (auto simp: fileIndexable_def)
  show ?thesis
    using forEachE_addToIndex_plain[where g=fullNameOf, OF True]
      forEachE_addToIndex_proto[where g="\<lambda>x. x", OF assms(2) r]
    by (simp add: indexNaclFile_def)
next
  case False
  then have "\<exists>e \<in> set (elements p). fullNameOf e \<in> set objectPrototypeNames" by blast
  from forEachE_addToIndex_proto[where g=fullNameOf, OF assms(1) this]
  show ?thesis by (simp add: indexNaclFile_def)
qed

lemma dom_indexFile_plain:
  assumes "dom (fst idxs) \<inter> set objectPrototypeNames = {}"
    and "dom (snd idxs) \<inter> set objectPrototypeNames = {}"
    and "fileIndexable p"
  shows "dom (fst (indexFile idxs p)) \<inter> set objectPrototypeNames = {}"
    and "dom (snd (indexFile idxs p)) \<inter> set objectPrototypeNames = {}"
  using assms
  by (auto simp: indexFile_def fileIndexable_def dom_foldl_insertFile[where g=fullNameOf]
      dom_foldl_insertFile[where g="\<lambda>x. x", simplified])

lemma forEachE_indexNaclFile_indexable:
  "\<forall>p \<in> set ps. fileIndexable p \<Longrightarrow> forEachE indexNaclFile idxs ps = Inr (foldl indexFile idxs ps)"
  by (induction ps arbitrary: idxs) (simp_all add: indexNaclFile_indexable)

lemma forEachE_indexNaclFile_throws:
  assumes "dom (fst idxs) \<inter> set objectPrototypeNames = {}"
    and "dom (snd idxs) \<inter> set objectPrototypeNames = {}"
    and "\<exists>p \<in> set ps. \<not> fileIndexable p"
  shows "\<exists>msg. forEachE indexNaclFile idxs ps = Inl (TypeError msg)"
  using assms
proof (induction ps arbitrary: idxs)
  case Nil
  then show ?case by simp
next
  case (Cons p ps)
  show ?case
  proof (cases "fileIndexable p")
    case True
    then have r: "\<exists>p \<in> set ps. \<not> fileIndexable p" using Cons.prems(3) by auto
    from Cons.IH[OF dom_indexFile_plain[OF Cons.prems(1,2) True] r]
    show ?thesis using True by (simp add: indexNaclFile_indexable)
  next
    case False
    from indexNaclFile_throws[OF Cons.prems(1,2) False] show ?thesis by auto
  qed
qed

lemma buildIndices_indexable: "indexable m \<Longrightarrow> buildIndices m = Inr (indicesOf m)"
  unfolding buildIndices_def indicesOf_def
  by (rule forEachE_indexNaclFile_indexable) (simp add: indexable_def)

lemma buildIndices_throws: "\<not> indexable m \<Longrightarrow> \<exists>msg. buildIndices m = Inl (TypeError msg)"
  unfolding buildIndices_def
  by (rule forEachE_indexNaclFile_throws) (auto simp: indexable_def)

lemma buildIndices_Inr: "buildIndices m = Inr idxs \<Longrightarrow> indexable m \<and> idxs = indicesOf m"
  using buildIndices_indexable[of m] buildIndices_throws[of m] by (cases "indexable m") auto

subsection \<open>The file map\<close>

lemma distinct_foldl_update:
  "distinct (map fst obj) \<Longrightarrow> distinct (map fst (foldl (\<lambda>obj x. AList.update (f x) (g x) obj) obj xs))"
  by (induction xs arbitrary: obj) (auto simp: distinct_update)

lemma distinct_keyBy: "distinct (map fst (keyBy f xs))"
  unfolding keyBy_def distinct_ownKeyOrder by (rule distinct_foldl_update) simp

lemma distinct_spread: "distinct (map fst a) \<Longrightarrow> distinct (map fst (spread a b))"
  unfolding spread_def distinct_ownKeyOrder by (rule distinct_foldl_update)

lemma distinct_omitBy: "distinct (map fst m) \<Longrightarrow> distinct (map fst (omitBy P m))"
  by (simp add: omitBy_def distinct_map_filter)

lemma map_of_foldl_update:
  "map_of (foldl (\<lambda>obj x. AList.update (f x) (g x) obj) obj xs) =
     map_of obj ++ map_of (map (\<lambda>x. (f x, g x)) (rev xs))"
proof (induction xs arbitrary: obj)
  case Nil
  then show ?case by simp
next
  case (Cons x xs)
  show ?case
    by (rule ext) (simp add: Cons.IH update_conv' map_add_def split: option.splits)
qed

lemma map_of_rev_distinct: "distinct (map fst b) \<Longrightarrow> map_of (rev b) = map_of b"
  by (subst map_of_inject_set) (simp_all add: rev_map[symmetric])

lemma map_of_keyBy: "map_of (keyBy f xs) = map_of (map (\<lambda>x. (f x, x)) (rev xs))"
proof -
  have "distinct (map fst (foldl (\<lambda>obj x. AList.update (f x) x obj) [] xs))"
    by (rule distinct_foldl_update) simp
  then show ?thesis
    unfolding keyBy_def by (simp add: map_of_ownKeyOrder map_of_foldl_update)
qed

lemma map_of_spread_distinct:
  assumes "distinct (map fst a)" "distinct (map fst b)"
  shows "map_of (spread a b) = map_of a ++ map_of b"
proof -
  have "distinct (map fst (foldl (\<lambda>obj kv. AList.update (fst kv) (snd kv) obj) a b))"
    using assms(1) by (rule distinct_foldl_update)
  then show ?thesis
    unfolding spread_def
    using map_of_foldl_update[of fst snd a b] assms(2)
    by (simp add: map_of_ownKeyOrder map_of_rev_distinct)
qed

lemma map_of_omitBy:
  "distinct (map fst m) \<Longrightarrow>
   map_of (omitBy P m) k = (case map_of m k of None \<Rightarrow> None | Some v \<Rightarrow> if P v then None else Some v)"
proof (induction m)
  case Nil
  then show ?case by (simp add: omitBy_def)
next
  case (Cons x m)
  then show ?case
    by (cases x) (auto simp: omitBy_def rev_image_eqI split: option.splits dest: map_of_SomeD)
qed

lemma keyBy_values: "(k, v) \<in> set (keyBy f xs) \<Longrightarrow> v \<in> set xs \<and> f v = k"
proof -
  assume a: "(k, v) \<in> set (keyBy f xs)"
  have "map_of (keyBy f xs) k = Some v"
    by (simp add: distinct_keyBy a)
  then have "map_of (map (\<lambda>x. (f x, x)) (rev xs)) k = Some v" by (simp add: map_of_keyBy)
  then show ?thesis by (auto dest: map_of_SomeD)
qed

lemma keys_keyBy: "fst ` set (keyBy f xs) = f ` set xs"
proof -
  have "dom (map_of (keyBy f xs)) = f ` set xs"
    by (simp add: map_of_keyBy dom_map_of_conv_image_fst image_image)
  then show ?thesis by (simp add: dom_map_of_conv_image_fst)
qed

lemma keysMatch_keyBy: "keysMatch (keyBy filename xs)"
  by (auto simp: keysMatch_def dest: keyBy_values)

lemma spread_values:
  assumes "distinct (map fst a)" "distinct (map fst b)" "(k, v) \<in> set (spread a b)"
  shows "(k, v) \<in> set a \<or> (k, v) \<in> set b"
proof -
  have "map_of (spread a b) k = Some v"
    using assms by (simp add: distinct_spread)
  then have "(map_of a ++ map_of b) k = Some v"
    using assms by (simp add: map_of_spread_distinct)
  then show ?thesis by (auto dest: map_of_SomeD)
qed

lemma allParsedOf_values:
  assumes "distinct (map fst current)" "(k, p) \<in> set (allParsedOf current newNaclFiles)"
  shows "(k, p) \<in> set current \<or> (p \<in> set newNaclFiles \<and> filename p = k)"
proof -
  have "(k, p) \<in> set (spread current (keyBy filename newNaclFiles))"
    using assms(2) by (auto simp: allParsedOf_def omitBy_def)
  then have "(k, p) \<in> set current \<or> (k, p) \<in> set (keyBy filename newNaclFiles)"
    using spread_values[OF assms(1) distinct_keyBy] by blast
  then show ?thesis using keyBy_values[of k p filename newNaclFiles] by blast
qed

lemma ownKeyOrder_allParsedOf:
  "ownKeyOrder (allParsedOf current newNaclFiles) = allParsedOf current newNaclFiles"
  by (simp add: allParsedOf_def omitBy_def ownKeyOrder_filter)
     (simp add: spread_def ownKeyOrder_idem)

lemma wfParsed_allParsedOf:
  assumes "wfParsed current"
  shows "wfParsed (allParsedOf current newNaclFiles)"
proof -
  have d0: "distinct (map fst current)" using assms by (simp add: wfParsed_def)
  have d: "distinct (map fst (spread current (keyBy filename newNaclFiles)))"
    using d0 by (rule distinct_spread)
  have "keysMatch (allParsedOf current newNaclFiles)"
    unfolding keysMatch_def
  proof (clarify)
    fix k p assume "(k, p) \<in> set (allParsedOf current newNaclFiles)"
    from allParsedOf_values[OF d0 this] show "filename p = k"
      using assms by (auto simp: wfParsed_def keysMatch_def)
  qed
  then show ?thesis
    using d by (simp add: wfParsed_def allParsedOf_def distinct_omitBy
        ownKeyOrder_allParsedOf[unfolded allParsedOf_def])
qed

lemma map_of_allParsedOf:
  assumes "distinct (map fst current)"
  shows "map_of (allParsedOf current newNaclFiles) k =
     (case (map_of current ++ map_of (keyBy filename newNaclFiles)) k of
        None \<Rightarrow> None
      | Some p \<Rightarrow> if elements p = [] \<and> errors p = [] then None else Some p)"
  using assms
  by (simp add: allParsedOf_def map_of_omitBy distinct_spread map_of_spread_distinct distinct_keyBy)

lemma allParsedOf_nonempty:
  "(k, p) \<in> set (allParsedOf current newNaclFiles) \<Longrightarrow> \<not> (elements p = [] \<and> errors p = [])"
  by (auto simp: allParsedOf_def omitBy_def)

lemma noEmptyEntries_allParsedOf: "noEmptyEntries (allParsedOf current fs)"
  using allParsedOf_nonempty by (fastforce simp: noEmptyEntries_def)

lemma wfParsed_Nil: "wfParsed []"
  by (simp add: wfParsed_def keysMatch_def ownKeyOrder_Nil)

lemma indexable_Nil: "indexable []"
  by (simp add: indexable_def)

lemma indexable_allParsedOf:
  assumes "distinct (map fst current)" "indexable current" "\<forall>p \<in> set newNaclFiles. fileIndexable p"
  shows "indexable (allParsedOf current newNaclFiles)"
  unfolding indexable_def
proof
  fix kp assume "kp \<in> set (allParsedOf current newNaclFiles)"
  then have "(fst kp, snd kp) \<in> set (allParsedOf current newNaclFiles)" by simp
  from allParsedOf_values[OF assms(1) this] show "fileIndexable (snd kp)"
    using assms(2,3) by (auto simp: indexable_def)
qed

lemma mapE_Inr:
  "(\<forall>x \<in> set xs. \<exists>y. f x = Inr y) \<Longrightarrow> mapE f xs = Inr (map (\<lambda>x. projr (f x)) xs)"
  by (induction xs) auto

lemma mapE_Inr_D:
  "mapE f xs = Inr ys \<Longrightarrow> ys = map (\<lambda>x. projr (f x)) xs \<and> (\<forall>x \<in> set xs. \<exists>y. f x = Inr y)"
  by (induction xs arbitrary: ys) (auto split: sum.splits)

subsection \<open>The cold start and the warm transition\<close>

lemma getProperty_Some: "obj k = Some v \<Longrightarrow> getProperty obj k = Own v"
  by (simp add: getProperty_def)

lemma getProperty_Own: "getProperty obj k = Own v \<Longrightarrow> obj k = Some v"
  by (cases "obj k") (auto simp: getProperty_def split: if_splits)

lemma cold_eq:
  "buildNaclFilesState mg fs None =
     (case buildIndices (allParsedOf [] fs) of
        Inl e \<Rightarrow> Inl e
      | Inr idxs \<Rightarrow>
          Inr \<lparr> state = \<lparr> parsedNaclFiles = allParsedOf [] fs, elementsIndex = fst idxs,
                  mergedElements =
                    map_of (keyBy fullNameOf (merged (mergeElements mg (newNaclFilesElementsOf fs)))),
                  mergeErrors = mergedErrors (mergeElements mg (newNaclFilesElementsOf fs)),
                  referencedIndex = snd idxs \<rparr>,
                changes = [] \<rparr>)"
  by (simp add: buildNaclFilesState_def Let_def split: sum.splits)

lemma cold_Inr:
  assumes "indexable (allParsedOf [] fs)"
  shows "\<exists>r. buildNaclFilesState mg fs None = Inr r \<and> parsedNaclFiles (state r) = allParsedOf [] fs
     \<and> elementsIndex (state r) = fst (indicesOf (allParsedOf [] fs))
     \<and> referencedIndex (state r) = snd (indicesOf (allParsedOf [] fs))
     \<and> mergedElements (state r) =
         map_of (keyBy fullNameOf (merged (mergeElements mg (newNaclFilesElementsOf fs))))
     \<and> mergeErrors (state r) = mergedErrors (mergeElements mg (newNaclFilesElementsOf fs))
     \<and> changes r = []"
  unfolding cold_eq buildIndices_indexable[OF assms] by simp

lemma cold_Inl:
  assumes "\<not> indexable (allParsedOf [] fs)"
  shows "\<exists>msg. buildNaclFilesState mg fs None = Inl (TypeError msg)"
proof -
  from buildIndices_throws[OF assms] obtain msg where
    "buildIndices (allParsedOf [] fs) = Inl (TypeError msg)" ..
  then show ?thesis unfolding cold_eq by simp
qed

lemma cold_D:
  assumes "buildNaclFilesState mg fs None = Inr r"
  shows "indexable (allParsedOf [] fs)" and "parsedNaclFiles (state r) = allParsedOf [] fs"
    and "elementsIndex (state r) = fst (indicesOf (allParsedOf [] fs))"
    and "referencedIndex (state r) = snd (indicesOf (allParsedOf [] fs))"
    and "mergedElements (state r) =
         map_of (keyBy fullNameOf (merged (mergeElements mg (newNaclFilesElementsOf fs))))"
    and "mergeErrors (state r) = mergedErrors (mergeElements mg (newNaclFilesElementsOf fs))"
    and "changes r = []"
proof -
  show i: "indexable (allParsedOf [] fs)"
    using cold_Inl[of fs mg] assms by (cases "indexable (allParsedOf [] fs)") auto
  from cold_Inr[OF i, of mg] obtain r' where r': "buildNaclFilesState mg fs None = Inr r'"
     "parsedNaclFiles (state r') = allParsedOf [] fs"
     "elementsIndex (state r') = fst (indicesOf (allParsedOf [] fs))"
     "referencedIndex (state r') = snd (indicesOf (allParsedOf [] fs))"
     "mergedElements (state r') =
         map_of (keyBy fullNameOf (merged (mergeElements mg (newNaclFilesElementsOf fs))))"
     "mergeErrors (state r') = mergedErrors (mergeElements mg (newNaclFilesElementsOf fs))"
     "changes r' = []"
    by blast
  have e: "r' = r" using r'(1) assms by simp
  show "parsedNaclFiles (state r) = allParsedOf [] fs" using r'(2) e by simp
  show "elementsIndex (state r) = fst (indicesOf (allParsedOf [] fs))" using r'(3) e by simp
  show "referencedIndex (state r) = snd (indicesOf (allParsedOf [] fs))" using r'(4) e by simp
  show "mergedElements (state r) =
         map_of (keyBy fullNameOf (merged (mergeElements mg (newNaclFilesElementsOf fs))))"
    using r'(5) e by simp
  show "mergeErrors (state r) = mergedErrors (mergeElements mg (newNaclFilesElementsOf fs))"
    using r'(6) e by simp
  show "changes r = []" using r'(7) e by simp
qed

lemma filesWith_keys:
  assumes "keysMatch m" "f \<in> set (filesWith n (map snd m))"
  shows "\<exists>p. (f, p) \<in> set m \<and> n \<in> fullNameOf ` set (elements p)"
  using assms by (fastforce simp: filesWith_def keysMatch_def)

lemma elementsIndex_files:
  assumes "fst (indicesOf m) n = Some fs"
  shows "fs = uniq (filesWith n (map snd m))"
  using assms by (simp add: elementsIndex_char split: if_splits)

lemma elementsOfFile_getProperty:
  "(case getProperty (map_of m) k of Own p \<Rightarrow> elements p | Inherited n \<Rightarrow> [] | Undefined \<Rightarrow> [])
     = elementsOfFile m k"
  by (simp add: getProperty_def elementsOfFile_def split: option.splits)

lemma set_relevantElementIDsOf:
  "set (relevantElementIDsOf current newNaclFiles) =
     fullNameOf ` (\<Union>p \<in> set newNaclFiles. set (elements p)) \<union>
     fullNameOf ` (\<Union>p \<in> set newNaclFiles. set (elementsOfFile current (filename p)))"
  by (auto simp: relevantElementIDsOf_def set_uniq newNaclFilesElementsOf_def
      currentElementsOfNewFiles_def elementsOfFile_getProperty)

lemma indexEntry_plain:
  "n \<notin> set objectPrototypeNames \<Longrightarrow> indexEntry idx n = map FileName (idxList idx n)"
  by (simp add: indexEntry_def getProperty_def idxList_def split: option.splits)

lemma set_relevantFilesOf:
  "set (relevantFilesOf idx ids) = (\<Union>n \<in> set ids. set (indexEntry idx n))"
  by (simp add: relevantFilesOf_def set_uniq)

lemma set_relevantFilesOf_plain:
  assumes "\<forall>n \<in> set ids. n \<notin> set objectPrototypeNames"
  shows "set (relevantFilesOf idx ids) =
     FileName ` {f. \<exists>n \<in> set ids. \<exists>fs. idx n = Some fs \<and> f \<in> set fs}"
proof -
  have "set (indexEntry idx n) = FileName ` {f. \<exists>fs. idx n = Some fs \<and> f \<in> set fs}"
    if "n \<in> set ids" for n
    using assms that by (cases "idx n") (auto simp: indexEntry_plain idxList_def)
  then have "(\<Union>n \<in> set ids. set (indexEntry idx n)) =
      (\<Union>n \<in> set ids. FileName ` {f. \<exists>fs. idx n = Some fs \<and> f \<in> set fs})"
    by simp
  also have "\<dots> = FileName ` {f. \<exists>n \<in> set ids. \<exists>fs. idx n = Some fs \<and> f \<in> set fs}"
    by blast
  finally show ?thesis unfolding set_relevantFilesOf .
qed

lemma relevantFiles_keys:
  assumes "wfParsed m" "\<forall>n \<in> set ids. n \<notin> set objectPrototypeNames"
    and "r \<in> set (relevantFilesOf (fst (indicesOf m)) ids)"
  shows "\<exists>f p. r = FileName f \<and> map_of m f = Some p"
proof -
  from assms(3) obtain f n fs where r: "r = FileName f"
    and "fst (indicesOf m) n = Some fs" "f \<in> set fs"
    unfolding set_relevantFilesOf_plain[OF assms(2)] by blast
  then have "f \<in> set (filesWith n (map snd m))"
    using elementsIndex_files set_uniq by metis
  then obtain p where "(f, p) \<in> set m"
    using assms(1) filesWith_keys by (metis wfParsed_def)
  then have "map_of m f = Some p" using assms(1) by (simp add: wfParsed_def)
  then show ?thesis using r by blast
qed

lemma toMerge_own:
  assumes "map_of m (propertyKey x) = Some p"
  shows "(case getProperty (map_of m) (propertyKey x) of
           Undefined \<Rightarrow> Inl (TypeError ''Cannot read property elements of undefined'')
         | Inherited p \<Rightarrow> Inl (TypeError ''Cannot read property filter of undefined'')
         | Own p \<Rightarrow> Inr (filter (\<lambda>e. fullNameOf e \<in> set ids) (elements p))) =
         Inr (filter (\<lambda>e. fullNameOf e \<in> set ids) (elementsOfFile m (propertyKey x)))"
  using assms by (simp add: getProperty_Some elementsOfFile_def)

lemma toMerge_Inr_own:
  assumes "(case getProperty (map_of m) k of
           Undefined \<Rightarrow> Inl (TypeError ''Cannot read property elements of undefined'')
         | Inherited p \<Rightarrow> Inl (TypeError ''Cannot read property filter of undefined'')
         | Own p \<Rightarrow> Inr (filter (\<lambda>e. fullNameOf e \<in> set ids) (elements p))) = Inr y"
  shows "\<exists>p. map_of m k = Some p"
  using assms by (cases "getProperty (map_of m) k") (auto dest: getProperty_Own)

lemma newElementsToMergeOf_Inr:
  assumes "wfParsed m" "\<forall>n \<in> set ids. n \<notin> set objectPrototypeNames"
  shows "newElementsToMergeOf m (relevantFilesOf (fst (indicesOf m)) ids) ids =
           Inr (concat (map (\<lambda>f. filter (\<lambda>e. fullNameOf e \<in> set ids)
                                   (elementsOfFile m (propertyKey f)))
                  (relevantFilesOf (fst (indicesOf m)) ids)))"
proof -
  let ?g = "\<lambda>fileName. case getProperty (map_of m) (propertyKey fileName) of
           Undefined \<Rightarrow> Inl (TypeError ''Cannot read property elements of undefined'')
         | Inherited p \<Rightarrow> Inl (TypeError ''Cannot read property filter of undefined'')
         | Own p \<Rightarrow> Inr (filter (\<lambda>e. fullNameOf e \<in> set ids) (elements p))"
  let ?fs = "relevantFilesOf (fst (indicesOf m)) ids"
  have g: "?g x = Inr (filter (\<lambda>e. fullNameOf e \<in> set ids) (elementsOfFile m (propertyKey x)))"
    if "x \<in> set ?fs" for x
  proof -
    from relevantFiles_keys[OF assms that] obtain f p where "x = FileName f" "map_of m f = Some p"
      by blast
    then have "map_of m (propertyKey x) = Some p" by (simp add: propertyKey_def)
    then show ?thesis by (rule toMerge_own)
  qed
  have a: "\<forall>x \<in> set ?fs. \<exists>y. ?g x = Inr y"
    using g by blast
  have b: "map (\<lambda>x. projr (?g x)) ?fs =
           map (\<lambda>f. filter (\<lambda>e. fullNameOf e \<in> set ids) (elementsOfFile m (propertyKey f))) ?fs"
    by (rule map_cong[OF refl]) (simp only: g sum.sel)
  show ?thesis
    unfolding newElementsToMergeOf_def mapE_Inr[OF a] b by simp
qed

lemma newElementsToMergeOf_D:
  assumes "newElementsToMergeOf m files ids = Inr es"
  shows "es = concat (map (\<lambda>f. filter (\<lambda>e. fullNameOf e \<in> set ids)
                              (elementsOfFile m (propertyKey f))) files)"
    and "\<forall>f \<in> set files. propertyKey f \<in> fst ` set m"
proof -
  let ?g = "\<lambda>fileName. case getProperty (map_of m) (propertyKey fileName) of
           Undefined \<Rightarrow> Inl (TypeError ''Cannot read property elements of undefined'')
         | Inherited p \<Rightarrow> Inl (TypeError ''Cannot read property filter of undefined'')
         | Own p \<Rightarrow> Inr (filter (\<lambda>e. fullNameOf e \<in> set ids) (elements p))"
  have "\<exists>ess. mapE ?g files = Inr ess \<and> es = concat ess"
    using assms unfolding newElementsToMergeOf_def by (cases "mapE ?g files") simp_all
  then obtain ess where ess: "mapE ?g files = Inr ess" "es = concat ess" by blast
  from mapE_Inr_D[OF ess(1)] have e: "ess = map (\<lambda>x. projr (?g x)) files"
    and r: "\<forall>x \<in> set files. \<exists>y. ?g x = Inr y" by blast+
  have own: "\<exists>p. map_of m (propertyKey x) = Some p" if "x \<in> set files" for x
  proof -
    from r that obtain y where "?g x = Inr y" by blast
    then show ?thesis by (rule toMerge_Inr_own)
  qed
  have g: "?g x = Inr (filter (\<lambda>e. fullNameOf e \<in> set ids) (elementsOfFile m (propertyKey x)))"
    if "x \<in> set files" for x
  proof -
    from own[OF that] obtain p where "map_of m (propertyKey x) = Some p" ..
    then show ?thesis by (rule toMerge_own)
  qed
  have mp: "map (\<lambda>x. projr (?g x)) files =
           map (\<lambda>f. filter (\<lambda>e. fullNameOf e \<in> set ids) (elementsOfFile m (propertyKey f))) files"
    by (rule map_cong[OF refl]) (simp only: g sum.sel)
  show "es = concat (map (\<lambda>f. filter (\<lambda>e. fullNameOf e \<in> set ids)
                              (elementsOfFile m (propertyKey f))) files)"
    by (simp only: ess(2) e mp)
  show "\<forall>f \<in> set files. propertyKey f \<in> fst ` set m"
  proof
    fix f assume "f \<in> set files"
    from own[OF this] obtain p where "map_of m (propertyKey f) = Some p" ..
    then have "(propertyKey f, p) \<in> set m" by (rule map_of_SomeD)
    then show "propertyKey f \<in> fst ` set m" by force
  qed
qed

lemma warm_eq:
  "buildNaclFilesState mg fs (Some cs) =
     (case buildIndices (allParsedOf (parsedNaclFiles cs) fs) of
        Inl e \<Rightarrow> Inl e
      | Inr idxs \<Rightarrow>
          (case newElementsToMergeOf (allParsedOf (parsedNaclFiles cs) fs)
                  (relevantFilesOf (fst idxs) (relevantElementIDsOf (parsedNaclFiles cs) fs))
                  (relevantElementIDsOf (parsedNaclFiles cs) fs) of
             Inl e \<Rightarrow> Inl e
           | Inr es \<Rightarrow>
               Inr \<lparr> state = \<lparr> parsedNaclFiles = allParsedOf (parsedNaclFiles cs) fs,
                       elementsIndex = fst idxs,
                       mergedElements = newMergedElements (buildNewMergedElementsAndErrors mg es
                         (relevantElementIDsOf (parsedNaclFiles cs) fs)
                         (mergedElements cs) (mergeErrors cs)),
                       mergeErrors = newMergeErrors (buildNewMergedElementsAndErrors mg es
                         (relevantElementIDsOf (parsedNaclFiles cs) fs)
                         (mergedElements cs) (mergeErrors cs)),
                       referencedIndex = snd idxs \<rparr>,
                     changes = newChanges (buildNewMergedElementsAndErrors mg es
                         (relevantElementIDsOf (parsedNaclFiles cs) fs)
                         (mergedElements cs) (mergeErrors cs)) \<rparr>))"
  by (simp add: buildNaclFilesState_def Let_def split: sum.splits)

lemma warmResult_eq:
  "warmResult mg fs cs =
     (let es = concat (map (\<lambda>f. filter (\<lambda>e. fullNameOf e \<in> set (relevantElementIDsOf (parsedNaclFiles cs) fs))
                  (elementsOfFile (allParsedOf (parsedNaclFiles cs) fs) (propertyKey f)))
                (relevantFilesOf (fst (indicesOf (allParsedOf (parsedNaclFiles cs) fs)))
                   (relevantElementIDsOf (parsedNaclFiles cs) fs)))
      in \<lparr> state = \<lparr> parsedNaclFiles = allParsedOf (parsedNaclFiles cs) fs,
                       elementsIndex = fst (indicesOf (allParsedOf (parsedNaclFiles cs) fs)),
                       mergedElements = newMergedElements (buildNewMergedElementsAndErrors mg es
                         (relevantElementIDsOf (parsedNaclFiles cs) fs)
                         (mergedElements cs) (mergeErrors cs)),
                       mergeErrors = newMergeErrors (buildNewMergedElementsAndErrors mg es
                         (relevantElementIDsOf (parsedNaclFiles cs) fs)
                         (mergedElements cs) (mergeErrors cs)),
                       referencedIndex = snd (indicesOf (allParsedOf (parsedNaclFiles cs) fs)) \<rparr>,
                     changes = newChanges (buildNewMergedElementsAndErrors mg es
                         (relevantElementIDsOf (parsedNaclFiles cs) fs)
                         (mergedElements cs) (mergeErrors cs)) \<rparr>)"
  by (simp add: warmResult_def Let_def)

lemma warm_Inr:
  assumes "wfParsed (parsedNaclFiles cs)"
    and "indexable (allParsedOf (parsedNaclFiles cs) fs)"
    and "\<forall>n \<in> set (relevantElementIDsOf (parsedNaclFiles cs) fs). n \<notin> set objectPrototypeNames"
  shows "buildNaclFilesState mg fs (Some cs) = Inr (warmResult mg fs cs)"
  unfolding warm_eq buildIndices_indexable[OF assms(2)] warmResult_eq
  using newElementsToMergeOf_Inr[OF wfParsed_allParsedOf[OF assms(1), of fs] assms(3)]
  by (simp add: Let_def)

lemma warm_Inl:
  assumes "\<not> indexable (allParsedOf (parsedNaclFiles cs) fs)"
  shows "\<exists>msg. buildNaclFilesState mg fs (Some cs) = Inl (TypeError msg)"
proof -
  from buildIndices_throws[OF assms] obtain msg where
    "buildIndices (allParsedOf (parsedNaclFiles cs) fs) = Inl (TypeError msg)" ..
  then show ?thesis unfolding warm_eq by simp
qed

lemma warm_D:
  assumes "buildNaclFilesState mg fs (Some cs) = Inr r"
  shows "indexable (allParsedOf (parsedNaclFiles cs) fs)" and "r = warmResult mg fs cs"
proof -
  show i: "indexable (allParsedOf (parsedNaclFiles cs) fs)"
    using warm_Inl[of cs fs mg] assms
    by (cases "indexable (allParsedOf (parsedNaclFiles cs) fs)") auto
  let ?m = "allParsedOf (parsedNaclFiles cs) fs"
  let ?ids = "relevantElementIDsOf (parsedNaclFiles cs) fs"
  let ?files = "relevantFilesOf (fst (indicesOf ?m)) ?ids"
  show "r = warmResult mg fs cs"
  proof (cases "newElementsToMergeOf ?m ?files ?ids")
    case (Inl e)
    then show ?thesis
      using assms unfolding warm_eq buildIndices_indexable[OF i] by simp
  next
    case (Inr es)
    from newElementsToMergeOf_D(1)[OF Inr] have es: "es =
      concat (map (\<lambda>f. filter (\<lambda>e. fullNameOf e \<in> set ?ids) (elementsOfFile ?m (propertyKey f))) ?files)" .
    have "buildNaclFilesState mg fs (Some cs) = Inr (warmResult mg fs cs)"
      unfolding warm_eq buildIndices_indexable[OF i] warmResult_eq
      by (simp add: Inr Let_def es[symmetric])
    then show ?thesis using assms by simp
  qed
qed

lemma warmResult_fields:
  "parsedNaclFiles (state (warmResult mg fs cs)) = allParsedOf (parsedNaclFiles cs) fs"
  "elementsIndex (state (warmResult mg fs cs)) = fst (indicesOf (allParsedOf (parsedNaclFiles cs) fs))"
  "referencedIndex (state (warmResult mg fs cs)) = snd (indicesOf (allParsedOf (parsedNaclFiles cs) fs))"
  by (simp_all add: warmResult_def Let_def)

text \<open>
  What holds of every reachable state: the file map is well-formed, indexable and without
  empty entries, and the indices are those of the file map.
\<close>

lemma reachable_inv:
  "reachable mg s \<Longrightarrow>
   wfParsed (parsedNaclFiles s) \<and> indexable (parsedNaclFiles s) \<and>
   noEmptyEntries (parsedNaclFiles s) \<and>
   elementsIndex s = fst (indicesOf (parsedNaclFiles s)) \<and>
   referencedIndex s = snd (indicesOf (parsedNaclFiles s))"
proof (induction rule: reachable.induct)
  case (cold newNaclFiles r)
  show ?case
    using cold_D[OF cold] wfParsed_allParsedOf[OF wfParsed_Nil, of newNaclFiles]
    by (simp add: noEmptyEntries_allParsedOf)
next
  case (warm cs newNaclFiles r)
  have "wfParsed (parsedNaclFiles cs)" using warm.IH by simp
  then show ?case
    using warm_D[OF warm.hyps(2)] wfParsed_allParsedOf[of "parsedNaclFiles cs" newNaclFiles]
    by (simp add: warmResult_fields noEmptyEntries_allParsedOf)
qed

lemma reachable_wfParsed: "reachable mg s \<Longrightarrow> wfParsed (parsedNaclFiles s)"
  using reachable_inv by blast

lemma reachable_indexable: "reachable mg s \<Longrightarrow> indexable (parsedNaclFiles s)"
  using reachable_inv by blast

lemma elementsOfFile_in:
  "e \<in> set (elementsOfFile m k) \<Longrightarrow> \<exists>p. (k, p) \<in> set m \<and> e \<in> set (elements p)"
proof (cases "map_of m k")
  case None
  then show "e \<in> set (elementsOfFile m k) \<Longrightarrow> ?thesis" by (simp add: elementsOfFile_def)
next
  case (Some p)
  then have "(k, p) \<in> set m" by (rule map_of_SomeD)
  then show "e \<in> set (elementsOfFile m k) \<Longrightarrow> ?thesis"
    using Some by (auto simp: elementsOfFile_def)
qed

lemma relevant_ids_plain:
  assumes "indexable current" "plainNames newNaclFiles"
  shows "\<forall>n \<in> set (relevantElementIDsOf current newNaclFiles). n \<notin> set objectPrototypeNames"
proof
  fix n assume "n \<in> set (relevantElementIDsOf current newNaclFiles)"
  then consider p e where "p \<in> set newNaclFiles" "e \<in> set (elements p)" "n = fullNameOf e"
    | p e where "p \<in> set newNaclFiles" "e \<in> set (elementsOfFile current (filename p))"
        "n = fullNameOf e"
    unfolding set_relevantElementIDsOf by blast
  then show "n \<notin> set objectPrototypeNames"
  proof cases
    case 1
    then show ?thesis using assms(2) by (auto simp: plainNames_def)
  next
    case 2
    from elementsOfFile_in[OF 2(2)] obtain q where q: "(filename p, q) \<in> set current"
      "e \<in> set (elements q)" by blast
    then have "fileIndexable q" using assms(1) by (force simp: indexable_def)
    then show ?thesis using q(2) 2(3) by (simp add: fileIndexable_def)
  qed
qed

lemma plainNames_indexable: "\<forall>p \<in> set fs. fileIndexable p \<Longrightarrow> plainNames fs"
  by (simp add: plainNames_def fileIndexable_def)

lemma warm_returns:
  assumes "reachable mg cs" "\<forall>p \<in> set fs. fileIndexable p"
  shows "buildNaclFilesState mg fs (Some cs) = Inr (warmResult mg fs cs)"
proof -
  have wf: "wfParsed (parsedNaclFiles cs)" and ix: "indexable (parsedNaclFiles cs)"
    using reachable_inv[OF assms(1)] by simp_all
  have d: "distinct (map fst (parsedNaclFiles cs))" using wf by (simp add: wfParsed_def)
  show ?thesis
    using warm_Inr[OF wf indexable_allParsedOf[OF d ix assms(2)]
        relevant_ids_plain[OF ix plainNames_indexable[OF assms(2)]]] .
qed

lemma cold_returns:
  assumes "\<forall>p \<in> set fs. fileIndexable p"
  shows "\<exists>r. buildNaclFilesState mg fs None = Inr r"
  using cold_Inr[OF indexable_allParsedOf[OF _ indexable_Nil assms], of mg] by auto


lemmas ex_defs = exMerge_def exTypeX_def exTypeY_def exFileA_def exFileB_def exFileAEmpty_def
  exFileC_def

lemma exState_cold:
  "buildNaclFilesState exMerge [exFileA, exFileB] None =
     Inr (projr (buildNaclFilesState exMerge [exFileA, exFileB] None))"
proof -
  have "\<forall>p \<in> set [exFileA, exFileB]. fileIndexable p"
    by (simp add: fileIndexable_def ex_defs fullNameOf_def getFullName_def objectPrototypeNames_def)
  from cold_returns[OF this, of exMerge] show ?thesis by auto
qed

lemma reachable_exState: "reachable exMerge exState"
  unfolding exState_def using exState_cold by (rule reachable.cold)

lemma tombstone:
  assumes "wfParsed current" "f \<in> filename ` set newNaclFiles"
    "\<forall>p \<in> set newNaclFiles. filename p = f \<longrightarrow> elements p = [] \<and> errors p = []"
  shows "f \<notin> fst ` set (allParsedOf current newNaclFiles)"
    and "fst (indicesOf (allParsedOf current newNaclFiles)) n = Some fs \<Longrightarrow> f \<notin> set fs"
proof -
  let ?m = "allParsedOf current newNaclFiles"
  have "f \<in> fst ` set (keyBy filename newNaclFiles)"
    using assms(2) by (simp add: keys_keyBy)
  then obtain p where p: "(f, p) \<in> set (keyBy filename newNaclFiles)" by auto
  then have "map_of (keyBy filename newNaclFiles) f = Some p"
    by (simp add: distinct_keyBy)
  moreover have "elements p = [] \<and> errors p = []"
    using keyBy_values[OF p] assms(3) by simp
  ultimately have "map_of ?m f = None"
    using assms(1) by (simp add: map_of_allParsedOf wfParsed_def)
  then show a: "f \<notin> fst ` set ?m"
    by (simp add: map_of_eq_None_iff)
  assume "fst (indicesOf ?m) n = Some fs"
  then have "fs = uniq (filesWith n (map snd ?m))" by (rule elementsIndex_files)
  moreover have "keysMatch ?m"
    using wfParsed_allParsedOf[OF assms(1)] by (simp add: wfParsed_def)
  ultimately show "f \<notin> set fs"
    using a filesWith_keys[of ?m f n] by (force simp: set_uniq)
qed

lemma transition_D:
  assumes "currentState = None \<or> (\<exists>cs. currentState = Some cs \<and> reachable mg cs)"
    and "buildNaclFilesState mg newNaclFiles currentState = Inr r"
  shows "\<exists>current. wfParsed current \<and> indexable current \<and>
           current = (case currentState of None \<Rightarrow> [] | Some cs \<Rightarrow> parsedNaclFiles cs) \<and>
           indexable (allParsedOf current newNaclFiles) \<and>
           parsedNaclFiles (state r) = allParsedOf current newNaclFiles \<and>
           elementsIndex (state r) = fst (indicesOf (allParsedOf current newNaclFiles)) \<and>
           referencedIndex (state r) = snd (indicesOf (allParsedOf current newNaclFiles))"
proof (cases currentState)
  case None
  then show ?thesis
    using cold_D[of mg newNaclFiles r] assms(2) by (simp add: wfParsed_Nil indexable_Nil)
next
  case (Some cs)
  then have "reachable mg cs" using assms(1) by simp
  then show ?thesis
    using warm_D[of mg newNaclFiles cs r] assms(2) Some reachable_inv[of mg cs]
    by (simp add: warmResult_fields)
qed

lemma transition_returns:
  assumes "currentState = None \<or> (\<exists>cs. currentState = Some cs \<and> reachable mg cs)"
    and "\<forall>p \<in> set newNaclFiles. fileIndexable p"
  shows "\<exists>r. buildNaclFilesState mg newNaclFiles currentState = Inr r"
proof (cases currentState)
  case None
  then show ?thesis using cold_returns[OF assms(2)] by simp
next
  case (Some cs)
  then have "reachable mg cs" using assms(1) by simp
  from warm_returns[OF this assms(2)] show ?thesis using Some by simp
qed

lemma transition_no_empty_entries:
  assumes "currentState = None \<or> (\<exists>cs. currentState = Some cs \<and> reachable mg cs)"
    and "buildNaclFilesState mg newNaclFiles currentState = Inr r"
  shows "(\<forall>(k, p) \<in> set (parsedNaclFiles (state r)). elements p \<noteq> [] \<or> errors p \<noteq> []) \<and>
         (\<forall>f. f \<in> filename ` set newNaclFiles \<and>
               (\<forall>p \<in> set newNaclFiles. filename p = f \<longrightarrow> elements p = [] \<and> errors p = []) \<longrightarrow>
               f \<notin> fst ` set (parsedNaclFiles (state r)) \<and>
               (\<forall>n fs. elementsIndex (state r) n = Some fs \<longrightarrow> f \<notin> set fs))"
proof -
  from transition_D[OF assms] obtain current where wf: "wfParsed current"
    and p: "parsedNaclFiles (state r) = allParsedOf current newNaclFiles"
    and i: "elementsIndex (state r) = fst (indicesOf (allParsedOf current newNaclFiles))"
    by blast
  have "\<forall>(k, p) \<in> set (parsedNaclFiles (state r)). elements p \<noteq> [] \<or> errors p \<noteq> []"
    using allParsedOf_nonempty by (fastforce simp: p)
  moreover have "\<forall>f. f \<in> filename ` set newNaclFiles \<and>
                 (\<forall>p \<in> set newNaclFiles. filename p = f \<longrightarrow> elements p = [] \<and> errors p = []) \<longrightarrow>
                 f \<notin> fst ` set (parsedNaclFiles (state r)) \<and>
                 (\<forall>n fs. elementsIndex (state r) n = Some fs \<longrightarrow> f \<notin> set fs)"
    using tombstone[OF wf] unfolding p i by blast
  ultimately show ?thesis by blast
qed

lemma distinct_batch_plain:
  assumes "distinct (map fst current)" "distinct (map filename fs)"
    and "indexable (allParsedOf current fs)"
  shows "plainNames fs"
  unfolding plainNames_def
proof (intro ballI)
  fix p e assume p: "p \<in> set fs" and e: "e \<in> set (elements p)"
  have "map_of (map (\<lambda>x. (filename x, x)) (rev fs)) (filename p) = Some p"
    using assms(2) p by (intro map_of_is_SomeI) (auto simp: rev_map[symmetric] comp_def)
  then have "map_of (keyBy filename fs) (filename p) = Some p" by (simp add: map_of_keyBy)
  then have "map_of (allParsedOf current fs) (filename p) = Some p"
    using e by (auto simp: map_of_allParsedOf[OF assms(1)])
  then have "(filename p, p) \<in> set (allParsedOf current fs)" by (rule map_of_SomeD)
  then have "fileIndexable p" using assms(3) by (force simp: indexable_def)
  then show "fullNameOf e \<notin> set objectPrototypeNames" using e by (simp add: fileIndexable_def)
qed

text \<open>
  Claim C5. In a warm transition from a reachable state that returns (it does when no new
  file has an element or a referenced identity named by a property of \<open>Object.prototype\<close>),
  the affected identities are exactly the full names of the elements of the new parses
  together with the full names of the elements the same file names held before; the relevant
  files are exactly what the rebuilt \<open>elementsIndex\<close> reads under the affected identities,
  which are the files it lists under them when no element of the batch is named by a property
  of \<open>Object.prototype\<close>, and also when the files of the batch have distinct names; and the
  elements that are merged again are the elements with an affected identity of exactly those
  files, read from the new file map.
\<close>

theorem warm_path_affected_identities_and_files:
  assumes "reachable mg cs"
  shows "((\<forall>p \<in> set newNaclFiles. fileIndexable p) \<longrightarrow>
           (\<exists>r. buildNaclFilesState mg newNaclFiles (Some cs) = Inr r)) \<and>
     (\<forall>r. buildNaclFilesState mg newNaclFiles (Some cs) = Inr r \<longrightarrow>
       (\<exists>ids files.
          set ids =
            fullNameOf ` (\<Union>p \<in> set newNaclFiles. set (elements p)) \<union>
            fullNameOf ` (\<Union>p \<in> set newNaclFiles.
               set (elementsOfFile (parsedNaclFiles cs) (filename p))) \<and>
          distinct files \<and>
          set files = (\<Union>n \<in> set ids. set (indexEntry (elementsIndex (state r)) n)) \<and>
          (plainNames newNaclFiles \<or> distinct (map filename newNaclFiles) \<longrightarrow>
             set files =
               FileName ` {f. \<exists>n \<in> set ids. \<exists>fs. elementsIndex (state r) n = Some fs \<and> f \<in> set fs}) \<and>
          (let es = concat (map (\<lambda>f. filter (\<lambda>e. fullNameOf e \<in> set ids)
                       (elementsOfFile (parsedNaclFiles (state r)) (propertyKey f))) files);
               res = buildNewMergedElementsAndErrors mg es ids (mergedElements cs) (mergeErrors cs)
           in mergedElements (state r) = newMergedElements res \<and>
              mergeErrors (state r) = newMergeErrors res \<and>
              changes r = newChanges res)))"
proof (intro conjI impI allI)
  assume "\<forall>p \<in> set newNaclFiles. fileIndexable p"
  from warm_returns[OF assms this]
  show "\<exists>r. buildNaclFilesState mg newNaclFiles (Some cs) = Inr r" by blast
next
  fix r assume r: "buildNaclFilesState mg newNaclFiles (Some cs) = Inr r"
  let ?r = "warmResult mg newNaclFiles cs"
  let ?ids = "relevantElementIDsOf (parsedNaclFiles cs) newNaclFiles"
  let ?files = "relevantFilesOf (elementsIndex (state ?r)) ?ids"
  have e: "r = ?r" and ix: "indexable (allParsedOf (parsedNaclFiles cs) newNaclFiles)"
    using warm_D[OF r] by simp_all
  have inv: "wfParsed (parsedNaclFiles cs)" "indexable (parsedNaclFiles cs)"
    using reachable_inv[OF assms] by simp_all
  have a: "set ?ids =
       fullNameOf ` (\<Union>p \<in> set newNaclFiles. set (elements p)) \<union>
       fullNameOf ` (\<Union>p \<in> set newNaclFiles.
          set (elementsOfFile (parsedNaclFiles cs) (filename p)))"
    by (rule set_relevantElementIDsOf)
  have b: "distinct ?files" by (simp add: relevantFilesOf_def distinct_uniq)
  have c: "set ?files = (\<Union>n \<in> set ?ids. set (indexEntry (elementsIndex (state ?r)) n))"
    by (rule set_relevantFilesOf)
  have d: "set ?files =
      FileName ` {f. \<exists>n \<in> set ?ids. \<exists>fs. elementsIndex (state ?r) n = Some fs \<and> f \<in> set fs}"
    if "plainNames newNaclFiles \<or> distinct (map filename newNaclFiles)"
  proof -
    have "plainNames newNaclFiles"
      using that distinct_batch_plain[OF _ _ ix] inv(1) by (auto simp: wfParsed_def)
    from relevant_ids_plain[OF inv(2) this] show ?thesis
      by (rule set_relevantFilesOf_plain)
  qed
  have f: "(let es = concat (map (\<lambda>f. filter (\<lambda>e. fullNameOf e \<in> set ?ids)
                  (elementsOfFile (parsedNaclFiles (state ?r)) (propertyKey f))) ?files);
          res = buildNewMergedElementsAndErrors mg es ?ids (mergedElements cs) (mergeErrors cs)
      in mergedElements (state ?r) = newMergedElements res \<and>
         mergeErrors (state ?r) = newMergeErrors res \<and>
         changes ?r = newChanges res)"
    by (simp add: warmResult_def Let_def)
  show "\<exists>ids files.
          set ids =
            fullNameOf ` (\<Union>p \<in> set newNaclFiles. set (elements p)) \<union>
            fullNameOf ` (\<Union>p \<in> set newNaclFiles.
               set (elementsOfFile (parsedNaclFiles cs) (filename p))) \<and>
          distinct files \<and>
          set files = (\<Union>n \<in> set ids. set (indexEntry (elementsIndex (state r)) n)) \<and>
          (plainNames newNaclFiles \<or> distinct (map filename newNaclFiles) \<longrightarrow>
             set files =
               FileName ` {f. \<exists>n \<in> set ids. \<exists>fs. elementsIndex (state r) n = Some fs \<and> f \<in> set fs}) \<and>
          (let es = concat (map (\<lambda>f. filter (\<lambda>e. fullNameOf e \<in> set ids)
                       (elementsOfFile (parsedNaclFiles (state r)) (propertyKey f))) files);
               res = buildNewMergedElementsAndErrors mg es ids (mergedElements cs) (mergeErrors cs)
           in mergedElements (state r) = newMergedElements res \<and>
              mergeErrors (state r) = newMergeErrors res \<and>
              changes r = newChanges res)"
    unfolding e
    by (rule exI[of _ ?ids], rule exI[of _ ?files]) (intro conjI impI a b c d f)
qed

lemma exFileAEmpty_indexable: "\<forall>p \<in> set [exFileAEmpty]. fileIndexable p"
  by (simp add: fileIndexable_def exFileAEmpty_def)

theorem warm_path_affected_identities_and_files_witness:
  "reachable exMerge exState \<and> fileIndexable exFileAEmpty \<and>
   plainNames [exFileAEmpty] \<and>
   (\<exists>r ids files. buildNaclFilesState exMerge [exFileAEmpty] (Some exState) = Inr r \<and>
        set ids = {''x''} \<and> set files = {FileName ''b.nacl''} \<and>
        mergedElements (state r) ''x'' = Some exTypeX \<and>
        mergedElements (state r) ''y'' = Some exTypeY \<and>
        changes r = [Modification
          (Variable (ElemID IdType ''x'' []) (Primitive (PString ''conflict''))) exTypeX])"
proof -
  note t = warm_path_affected_identities_and_files[OF reachable_exState, of "[exFileAEmpty]"]
  obtain r where r: "buildNaclFilesState exMerge [exFileAEmpty] (Some exState) = Inr r"
    using t[THEN conjunct1, THEN mp, OF exFileAEmpty_indexable] ..
  have pl: "plainNames [exFileAEmpty]"
    by (simp add: plainNames_def exFileAEmpty_def)
  from t[THEN conjunct2, THEN spec, THEN mp, OF r] obtain ids files where
    i: "set ids =
            fullNameOf ` (\<Union>p \<in> set [exFileAEmpty]. set (elements p)) \<union>
            fullNameOf ` (\<Union>p \<in> set [exFileAEmpty].
               set (elementsOfFile (parsedNaclFiles exState) (filename p)))"
    and f: "plainNames [exFileAEmpty] \<or> distinct (map filename [exFileAEmpty]) \<longrightarrow>
             set files =
               FileName ` {f. \<exists>n \<in> set ids. \<exists>fs. elementsIndex (state r) n = Some fs \<and> f \<in> set fs}"
    by (elim exE conjE)
  have e: "elementsOfFile (parsedNaclFiles exState) ''a.nacl'' = [exTypeX]"
    by code_simp
  have ids: "set ids = {''x''}"
    unfolding i by (simp add: exFileAEmpty_def e) (simp add: exTypeX_def fullNameOf_def getFullName_def)
  have p: "buildNaclFilesState exMerge [exFileAEmpty] (Some exState) =
      Inr (projr (buildNaclFilesState exMerge [exFileAEmpty] (Some exState)))"
    using r by simp
  have "elementsIndex (state (projr
      (buildNaclFilesState exMerge [exFileAEmpty] (Some exState)))) ''x'' = Some [''b.nacl'']"
    by code_simp
  then have x: "elementsIndex (state r) ''x'' = Some [''b.nacl'']" using r by simp
  have files: "set files = {FileName ''b.nacl''}"
    using f pl unfolding ids by (simp add: x)
  have m1: "mergedElements (state (projr
      (buildNaclFilesState exMerge [exFileAEmpty] (Some exState)))) ''x'' = Some exTypeX"
    by code_simp
  have m2: "mergedElements (state (projr
      (buildNaclFilesState exMerge [exFileAEmpty] (Some exState)))) ''y'' = Some exTypeY"
    by code_simp
  have m3: "changes (projr
      (buildNaclFilesState exMerge [exFileAEmpty] (Some exState))) = [Modification
          (Variable (ElemID IdType ''x'' []) (Primitive (PString ''conflict''))) exTypeX]"
    by code_simp
  have "\<exists>r ids files. buildNaclFilesState exMerge [exFileAEmpty] (Some exState) = Inr r \<and>
        set ids = {''x''} \<and> set files = {FileName ''b.nacl''} \<and>
        mergedElements (state r) ''x'' = Some exTypeX \<and>
        mergedElements (state r) ''y'' = Some exTypeY \<and>
        changes r = [Modification
          (Variable (ElemID IdType ''x'' []) (Primitive (PString ''conflict''))) exTypeX]"
    using r ids files m1 m2 m3 by (intro exI[of _ r] exI[of _ ids] exI[of _ files]) simp
  moreover have "fileIndexable exFileAEmpty"
    using exFileAEmpty_indexable by simp
  ultimately show ?thesis
    using reachable_exState pl by (intro conjI)
qed

lemma mset_uniq_cong: "set xs = set ys \<Longrightarrow> mset (uniq xs) = mset (uniq ys)"
  using set_eq_iff_mset_eq_distinct[of "uniq xs" "uniq ys"]
  by (simp add: distinct_uniq set_uniq)

lemma set_filesWith: "set (filesWith n ps) = filename ` {p \<in> set ps. n \<in> fullNameOf ` set (elements p)}"
  by (auto simp: filesWith_def)

lemma set_filesReferencing:
  "set (filesReferencing n ps) = filename ` {p \<in> set ps. n \<in> set (referenced p)}"
  by (auto simp: filesReferencing_def)

lemma indicesOf_same_files:
  assumes "mset m = mset m'"
  shows "map_option mset (fst (indicesOf m) n) = map_option mset (fst (indicesOf m') n) \<and>
         map_option mset (snd (indicesOf m) n) = map_option mset (snd (indicesOf m') n)"
proof -
  have s: "set (map snd m) = set (map snd m')"
    using assms by (metis mset_map set_mset_mset)
  have a: "set (filesWith n (map snd m)) = set (filesWith n (map snd m'))"
    unfolding set_filesWith s ..
  have b: "set (filesReferencing n (map snd m)) = set (filesReferencing n (map snd m'))"
    unfolding set_filesReferencing s ..
  have a0: "(filesWith n (map snd m) = []) = (filesWith n (map snd m') = [])"
    using a by (metis set_empty)
  have b0: "(filesReferencing n (map snd m) = []) = (filesReferencing n (map snd m') = [])"
    using b by (metis set_empty)
  show ?thesis
    unfolding elementsIndex_char referencedIndex_char
    using mset_uniq_cong[OF a] mset_uniq_cong[OF b] by (simp add: a0 b0)
qed

lemma indexable_same_files: "mset m = mset m' \<Longrightarrow> indexable m = indexable m'"
  unfolding indexable_def by (metis mset_eq_setD)

text \<open>
  Claim C6, as amended. Processing the same parsed files in another order either throws in
  both orders (when a full name to be entered is a property name of \<open>Object.prototype\<close>) or
  yields indices with the same keys, and under each key the same file names, possibly in
  another order: the entries are equal as multisets. (The entries are arrays in insertion
  order, so they need not be identical.)
\<close>

theorem index_build_same_files_any_order:
  assumes "mset m = mset m'"
  shows "((\<exists>idxs. buildIndices m = Inr idxs) = (\<exists>idxs. buildIndices m' = Inr idxs)) \<and>
         (\<forall>idxs idxs'. buildIndices m = Inr idxs \<and> buildIndices m' = Inr idxs' \<longrightarrow>
            map_option mset (fst idxs n) = map_option mset (fst idxs' n) \<and>
            map_option mset (snd idxs n) = map_option mset (snd idxs' n))"
proof (intro conjI allI impI)
  show "(\<exists>idxs. buildIndices m = Inr idxs) = (\<exists>idxs. buildIndices m' = Inr idxs)"
    using buildIndices_indexable[of m] buildIndices_indexable[of m']
      buildIndices_Inr[of m] buildIndices_Inr[of m'] indexable_same_files[OF assms]
    by blast
next
  fix idxs idxs'
  assume "buildIndices m = Inr idxs \<and> buildIndices m' = Inr idxs'"
  then have "idxs = indicesOf m" "idxs' = indicesOf m'"
    using buildIndices_Inr by blast+
  then show "map_option mset (fst idxs n) = map_option mset (fst idxs' n)"
    and "map_option mset (snd idxs n) = map_option mset (snd idxs' n)"
    using indicesOf_same_files[OF assms, of n] by simp_all
qed

theorem index_build_same_files_any_order_witness:
  "mset [(''a.nacl'', exFileA), (''b.nacl'', exFileB)] =
     mset [(''b.nacl'', exFileB), (''a.nacl'', exFileA)] \<and>
   (\<exists>idxs idxs'. buildIndices [(''a.nacl'', exFileA), (''b.nacl'', exFileB)] = Inr idxs \<and>
      buildIndices [(''b.nacl'', exFileB), (''a.nacl'', exFileA)] = Inr idxs' \<and>
      map_option mset (fst idxs ''x'') = map_option mset (fst idxs' ''x'') \<and>
      fst idxs ''x'' = Some [''a.nacl'', ''b.nacl''])"
proof -
  have h: "mset [(''a.nacl'', exFileA), (''b.nacl'', exFileB)] =
     mset [(''b.nacl'', exFileB), (''a.nacl'', exFileA)]"
    by simp
  have i: "indexable [(''a.nacl'', exFileA), (''b.nacl'', exFileB)]"
    by (simp add: indexable_def fileIndexable_def ex_defs fullNameOf_def getFullName_def
        objectPrototypeNames_def)
  then have i': "indexable [(''b.nacl'', exFileB), (''a.nacl'', exFileA)]"
    by (simp add: indexable_def)
  obtain idxs idxs' where r: "buildIndices [(''a.nacl'', exFileA), (''b.nacl'', exFileB)] = Inr idxs"
    "buildIndices [(''b.nacl'', exFileB), (''a.nacl'', exFileA)] = Inr idxs'"
    using buildIndices_indexable[OF i] buildIndices_indexable[OF i'] by blast
  have "fst (projr (buildIndices [(''a.nacl'', exFileA), (''b.nacl'', exFileB)])) ''x'' =
     Some [''a.nacl'', ''b.nacl'']"
    by code_simp
  then have "fst idxs ''x'' = Some [''a.nacl'', ''b.nacl'']" using r(1) by simp
  then show ?thesis
    using h r index_build_same_files_any_order[OF h, of "''x''"] by blast
qed

text \<open>
  Claim C6 as stated fails: two files that both declare \<open>x\<close>, ingested in the two possible
  orders, give the entry of \<open>x\<close> in \<open>elementsIndex\<close> in two different orders.
\<close>

theorem index_build_order_counterexample:
  "elementsIndex (state (projr (buildNaclFilesState exMerge [exFileA, exFileB] None))) ''x''
     = Some [''a.nacl'', ''b.nacl''] \<and>
   elementsIndex (state (projr (buildNaclFilesState exMerge [exFileB, exFileA] None))) ''x''
     = Some [''b.nacl'', ''a.nacl''] \<and>
   elementsIndex (state (projr (buildNaclFilesState exMerge [exFileA, exFileB] None))) \<noteq>
   elementsIndex (state (projr (buildNaclFilesState exMerge [exFileB, exFileA] None)))"
proof -
  have a: "elementsIndex (state (projr (buildNaclFilesState exMerge [exFileA, exFileB] None))) ''x''
     = Some [''a.nacl'', ''b.nacl'']"
    by code_simp
  have b: "elementsIndex (state (projr (buildNaclFilesState exMerge [exFileB, exFileA] None))) ''x''
     = Some [''b.nacl'', ''a.nacl'']"
    by code_simp
  have "elementsIndex (state (projr (buildNaclFilesState exMerge [exFileA, exFileB] None))) ''x'' \<noteq>
   elementsIndex (state (projr (buildNaclFilesState exMerge [exFileB, exFileA] None))) ''x''"
    unfolding a b by simp
  then have "elementsIndex (state (projr (buildNaclFilesState exMerge [exFileA, exFileB] None))) \<noteq>
   elementsIndex (state (projr (buildNaclFilesState exMerge [exFileB, exFileA] None)))"
    by (rule contrapos_nn) simp
  then show ?thesis using a b by simp
qed

subsection \<open>Consistency of the merged elements\<close>

lemma fragmentsOf_empty_iff: "(fragmentsOf n es = []) = (n \<notin> fullNameOf ` set es)"
  by (auto simp: fragmentsOf_def filter_empty_conv)

lemma fragmentsOf_names: "e \<in> set (fragmentsOf n es) \<Longrightarrow> fullNameOf e = n"
  by (simp add: fragmentsOf_def)

lemma contract_name:
  assumes "mergeContract mg" "n \<in> fullNameOf ` set es"
  shows "fullNameOf (fst (mg (fragmentsOf n es))) = n"
  using assms fragmentsOf_empty_iff[of n es] fragmentsOf_names
  unfolding mergeContract_def mergeKeepsIdentity_def mergeOrderInsensitive_def by blast

lemma contract_errs:
  assumes "mergeContract mg" "n \<in> fullNameOf ` set es" "err \<in> set (snd (mg (fragmentsOf n es)))"
  shows "errTopLevelName err = n"
  using assms fragmentsOf_empty_iff[of n es] fragmentsOf_names
  unfolding mergeContract_def mergeKeepsIdentity_def mergeOrderInsensitive_def by blast

lemma contract_perm:
  assumes "mergeContract mg" "mset (fragmentsOf n es) = mset (fragmentsOf n es')"
  shows "mg (fragmentsOf n es) = mg (fragmentsOf n es')"
  using assms fragmentsOf_names unfolding mergeContract_def mergeKeepsIdentity_def mergeOrderInsensitive_def by blast

lemma foldl_update_distinct:
  "distinct (map fst acc @ map f xs) \<Longrightarrow>
   foldl (\<lambda>obj x. AList.update (f x) (g x) obj) acc xs = acc @ map (\<lambda>x. (f x, g x)) xs"
proof (induction xs arbitrary: acc)
  case Nil
  then show ?case by simp
next
  case (Cons x xs)
  have "AList.update (f x) (g x) acc = acc @ [(f x, g x)]"
    using Cons.prems by (induction acc) auto
  moreover have "distinct (map fst (acc @ [(f x, g x)]) @ map f xs)"
    using Cons.prems by auto
  ultimately show ?case using Cons.IH[of "acc @ [(f x, g x)]"] by simp
qed

lemma keyBy_distinct_keys:
  "distinct (map f xs) \<Longrightarrow> keyBy f xs = ownKeyOrder (map (\<lambda>x. (f x, x)) xs)"
  using foldl_update_distinct[of "[]" f xs "\<lambda>x. x"] by (simp add: keyBy_def)

lemma map_of_keyBy_distinct:
  assumes "distinct (map f xs)"
  shows "map_of (keyBy f xs) = map_of (map (\<lambda>x. (f x, x)) xs)"
proof -
  have "distinct (map fst (map (\<lambda>x. (f x, x)) xs))" using assms by (simp add: comp_def)
  then show ?thesis
    unfolding keyBy_distinct_keys[OF assms] by (rule map_of_ownKeyOrder)
qed

lemma merged_map:
  assumes "mergeContract mg"
  shows "map_of (keyBy fullNameOf (merged (mergeElements mg es))) = mergedOf mg es"
proof -
  let ?ids = "uniq (map fullNameOf es)"
  let ?h = "\<lambda>n. fst (mg (fragmentsOf n es))"
  have m: "merged (mergeElements mg es) = map ?h ?ids"
    by (simp add: mergeElements_def Let_def comp_def)
  have names: "\<forall>n \<in> set ?ids. fullNameOf (?h n) = n"
    using contract_name[OF assms] by (simp add: set_uniq)
  then have "map fullNameOf (map ?h ?ids) = ?ids"
    by (simp add: map_idI)
  then have d: "distinct (map fullNameOf (map ?h ?ids))"
    by (simp add: distinct_uniq)
  have "map (\<lambda>x. (fullNameOf x, x)) (map ?h ?ids) = map (\<lambda>n. (n, ?h n)) ?ids"
    using names by simp
  then have "map_of (map (\<lambda>x. (fullNameOf x, x)) (map ?h ?ids)) =
      map_of (map (\<lambda>n. (n, ?h n)) ?ids)"
    by (simp only:)
  then have "map_of (keyBy fullNameOf (merged (mergeElements mg es))) =
      map_of (map (\<lambda>n. (n, ?h n)) ?ids)"
    by (simp only: m map_of_keyBy_distinct[OF d])
  then show ?thesis
    by (rule_tac ext)
       (simp add: map_of_map_restrict restrict_map_def set_uniq mergedOf_def fragmentsOf_empty_iff)
qed

lemma merged_errors:
  "mset (mergedErrors (mergeElements mg es)) = (\<Sum>n \<in> fullNameOf ` set es. errorsOf mg es n)"
proof -
  let ?ids = "uniq (map fullNameOf es)"
  have "mset (mergedErrors (mergeElements mg es)) =
        sum_list (map (\<lambda>n. mset (snd (mg (fragmentsOf n es)))) ?ids)"
    by (simp add: mergeElements_def Let_def mset_concat comp_def)
  also have "\<dots> = (\<Sum>n \<in> set ?ids. mset (snd (mg (fragmentsOf n es))))"
    by (simp add: sum.distinct_set_conv_list distinct_uniq)
  also have "\<dots> = (\<Sum>n \<in> fullNameOf ` set es. errorsOf mg es n)"
    by (rule sum.cong) (auto simp: set_uniq errorsOf_def fragmentsOf_empty_iff)
  finally show ?thesis .
qed

lemma mset_filter_allElements:
  "filter_mset Q (mset (allElements m)) =
     sum_list (map (\<lambda>kp. filter_mset Q (mset (elements (snd kp)))) m)"
  by (induction m) (simp_all add: allElements_def)

lemma elementsOfFile_entry:
  "distinct (map fst m) \<Longrightarrow> kp \<in> set m \<Longrightarrow> elementsOfFile m (fst kp) = elements (snd kp)"
  by (cases kp) (simp add: elementsOfFile_def)

lemma elementsOfFile_missing: "k \<notin> fst ` set m \<Longrightarrow> elementsOfFile m k = []"
  by (simp add: elementsOfFile_def map_of_eq_None_iff[THEN iffD2])

lemma frag_sum:
  assumes "distinct (map fst m)" "finite K" "fst ` set m \<subseteq> K"
  shows "filter_mset Q (mset (allElements m)) =
         (\<Sum>k \<in> K. filter_mset Q (mset (elementsOfFile m k)))"
proof -
  let ?h = "\<lambda>k. filter_mset Q (mset (elementsOfFile m k))"
  have "map (\<lambda>kp. filter_mset Q (mset (elements (snd kp)))) m = map (\<lambda>kp. ?h (fst kp)) m"
    using elementsOfFile_entry[OF assms(1)] by simp
  then have "filter_mset Q (mset (allElements m)) = sum_list (map ?h (map fst m))"
    by (simp only: mset_filter_allElements map_map comp_def)
  also have "\<dots> = (\<Sum>k \<in> set (map fst m). ?h k)"
    by (rule sum.distinct_set_conv_list[symmetric]) (rule assms(1))
  also have "\<dots> = (\<Sum>k \<in> K. ?h k)"
    using assms(2,3) by (intro sum.mono_neutral_left) (auto simp: elementsOfFile_missing)
  finally show ?thesis .
qed

lemma elementsOfFile_allParsedOf:
  assumes "distinct (map fst current)"
  shows "elementsOfFile (allParsedOf current newNaclFiles) k =
     (case map_of (keyBy filename newNaclFiles) k of
        None \<Rightarrow> elementsOfFile current k
      | Some p \<Rightarrow> elements p)"
  using assms
  by (auto simp: elementsOfFile_def map_of_allParsedOf map_add_def split: option.splits)

lemma keyBy_lookup:
  assumes "map_of (keyBy f xs) k = Some x"
  shows "x \<in> set xs \<and> f x = k"
  using assms keyBy_values[of k x f xs] by (auto dest: map_of_SomeD)

lemma keyBy_lookup_None:
  "(map_of (keyBy f xs) k = None) = (k \<notin> f ` set xs)"
  using keys_keyBy[of f xs] by (simp add: map_of_eq_None_iff)

lemma unaffected_fragments_file:
  assumes "distinct (map fst current)"
    and "n \<notin> set (relevantElementIDsOf current newNaclFiles)"
  shows "filter (\<lambda>e. fullNameOf e = n) (elementsOfFile (allParsedOf current newNaclFiles) k) =
         filter (\<lambda>e. fullNameOf e = n) (elementsOfFile current k)"
proof (cases "map_of (keyBy filename newNaclFiles) k")
  case None
  then show ?thesis using assms(1) by (simp add: elementsOfFile_allParsedOf)
next
  case (Some p)
  then have p: "p \<in> set newNaclFiles" "filename p = k" using keyBy_lookup by metis+
  have "\<forall>e \<in> set (elements p). fullNameOf e \<noteq> n"
    using assms(2) p(1) by (auto simp: set_relevantElementIDsOf)
  moreover have "\<forall>e \<in> set (elementsOfFile current k). fullNameOf e \<noteq> n"
    using assms(2) p by (auto simp: set_relevantElementIDsOf)
  ultimately show ?thesis
    using assms(1) Some by (simp add: elementsOfFile_allParsedOf filter_empty_conv[THEN iffD2])
qed

lemma unaffected_fragments:
  assumes "wfParsed current"
    and "n \<notin> set (relevantElementIDsOf current newNaclFiles)"
  shows "mset (fragmentsOf n (allElements (allParsedOf current newNaclFiles))) =
         mset (fragmentsOf n (allElements current))"
proof -
  let ?m' = "allParsedOf current newNaclFiles"
  let ?K = "fst ` set ?m' \<union> fst ` set current"
  have d: "distinct (map fst current)" "distinct (map fst ?m')"
    using assms(1) wfParsed_allParsedOf[OF assms(1), of newNaclFiles] by (simp_all add: wfParsed_def)
  have "filter_mset (\<lambda>e. fullNameOf e = n) (mset (elementsOfFile ?m' k)) =
        filter_mset (\<lambda>e. fullNameOf e = n) (mset (elementsOfFile current k))" for k
    using unaffected_fragments_file[OF d(1) assms(2), of k]
    by (metis mset_filter)
  then have "filter_mset (\<lambda>e. fullNameOf e = n) (mset (allElements ?m')) =
        filter_mset (\<lambda>e. fullNameOf e = n) (mset (allElements current))"
    by (simp add: frag_sum[OF d(1), of ?K] frag_sum[OF d(2), of ?K])
  then show ?thesis
    by (simp add: fragmentsOf_def)
qed

lemma propertyKey_FileName: "propertyKey (FileName f) = f"
  by (simp add: propertyKey_def)

lemma foldl_setAdd_map_inj:
  "inj f \<Longrightarrow> foldl setAdd (map f s) (map f xs) = map f (foldl setAdd s xs)"
proof (induction xs arbitrary: s)
  case Nil
  then show ?case by simp
next
  case (Cons x xs)
  have "setAdd (map f s) (f x) = map f (setAdd s x)"
    using Cons.prems by (auto simp: setAdd_def inj_def)
  then show ?case using Cons.IH[OF Cons.prems, of "setAdd s x"] by simp
qed

lemma uniq_map_inj: "inj f \<Longrightarrow> uniq (map f xs) = map f (uniq xs)"
  using foldl_setAdd_map_inj[of f "[]" xs] by (simp add: uniq_def)

lemma relevantFilesOf_plain:
  assumes "\<forall>n \<in> set ids. n \<notin> set objectPrototypeNames"
  shows "relevantFilesOf idx ids = map FileName (uniq (concat (map (idxList idx) ids)))"
proof -
  have "map (indexEntry idx) ids = map (\<lambda>n. map FileName (idxList idx n)) ids"
    using assms by (intro map_cong[OF refl]) (simp add: indexEntry_plain)
  then have "concat (map (indexEntry idx) ids) =
      concat (map (\<lambda>n. map FileName (idxList idx n)) ids)"
    by (simp only:)
  also have "\<dots> = map FileName (concat (map (idxList idx) ids))"
    by (simp add: map_concat comp_def)
  finally have "concat (map (indexEntry idx) ids) = map FileName (concat (map (idxList idx) ids))" .
  then show ?thesis
    by (simp add: relevantFilesOf_def uniq_map_inj inj_def)
qed

lemma toMerge_mset:
  assumes "wfParsed m" "\<forall>n \<in> set ids. n \<notin> set objectPrototypeNames"
  shows "mset (concat (map (\<lambda>f. filter (\<lambda>e. fullNameOf e \<in> set ids)
              (elementsOfFile m (propertyKey f)))
            (relevantFilesOf (fst (indicesOf m)) ids))) =
         mset (filter (\<lambda>e. fullNameOf e \<in> set ids) (allElements m))"
proof -
  let ?files = "uniq (concat (map (idxList (fst (indicesOf m))) ids))"
  let ?h = "\<lambda>f. filter_mset (\<lambda>e. fullNameOf e \<in> set ids) (mset (elementsOfFile m f))"
  have d: "distinct (map fst m)" using assms by (simp add: wfParsed_def)
  have rf: "relevantFilesOf (fst (indicesOf m)) ids = map FileName ?files"
    using assms(2) by (rule relevantFilesOf_plain)
  have sf: "set ?files = {f. \<exists>n \<in> set ids. \<exists>fs. fst (indicesOf m) n = Some fs \<and> f \<in> set fs}"
    by (auto simp: set_uniq idxList_def split: option.splits) force
  have sub: "set ?files \<subseteq> fst ` set m"
  proof
    fix f assume "f \<in> set ?files"
    then have "FileName f \<in> set (relevantFilesOf (fst (indicesOf m)) ids)"
      unfolding rf by simp
    from relevantFiles_keys[OF assms this] obtain p where "map_of m f = Some p" by blast
    then have "(f, p) \<in> set m" by (rule map_of_SomeD)
    then show "f \<in> fst ` set m" by force
  qed
  have zero: "?h k = {#}" if "k \<in> fst ` set m - set ?files" for k
  proof -
    from that obtain p where p: "(k, p) \<in> set m" by auto
    have "fullNameOf e \<notin> set ids" if e: "e \<in> set (elements p)" for e
    proof
      assume r: "fullNameOf e \<in> set ids"
      have "filename p = k" using assms p by (auto simp: wfParsed_def keysMatch_def)
      then have "k \<in> set (filesWith (fullNameOf e) (map snd m))"
        using p e by (force simp: set_filesWith)
      then have "fst (indicesOf m) (fullNameOf e) = Some (uniq (filesWith (fullNameOf e) (map snd m)))
          \<and> k \<in> set (uniq (filesWith (fullNameOf e) (map snd m)))"
        by (auto simp: elementsIndex_char set_uniq)
      then have "k \<in> set ?files"
        using r unfolding sf by blast
      then show False using \<open>k \<in> fst ` set m - set ?files\<close> by simp
    qed
    then have "filter (\<lambda>e. fullNameOf e \<in> set ids) (elements p) = []"
      by (simp add: filter_empty_conv)
    then show ?thesis
      using elementsOfFile_entry[OF d p] by (simp flip: mset_filter)
  qed
  have "mset (concat (map (\<lambda>f. filter (\<lambda>e. fullNameOf e \<in> set ids)
              (elementsOfFile m (propertyKey f))) (relevantFilesOf (fst (indicesOf m)) ids)))
        = sum_list (map ?h ?files)"
    unfolding rf by (simp add: mset_concat comp_def propertyKey_FileName)
  also have "\<dots> = (\<Sum>k \<in> set ?files. ?h k)"
    by (simp add: sum.distinct_set_conv_list distinct_uniq)
  also have "\<dots> = (\<Sum>k \<in> fst ` set m. ?h k)"
    using sub zero by (intro sum.mono_neutral_left) auto
  also have "\<dots> = filter_mset (\<lambda>e. fullNameOf e \<in> set ids) (mset (allElements m))"
    using frag_sum[OF d, of "fst ` set m"] by simp
  also have "\<dots> = mset (filter (\<lambda>e. fullNameOf e \<in> set ids) (allElements m))"
    by simp
  finally show ?thesis .
qed

lemma errorsOf_outside: "n \<notin> fullNameOf ` set es \<Longrightarrow> errorsOf mg es n = {#}"
  by (simp add: errorsOf_def fragmentsOf_empty_iff)

lemma errorsAll_superset:
  assumes "finite K" "fullNameOf ` set es \<subseteq> K"
  shows "errorsAll mg es = (\<Sum>n \<in> K. errorsOf mg es n)"
  unfolding errorsAll_def using assms
  by (intro sum.mono_neutral_left) (auto simp: errorsOf_outside)

lemma filter_mset_sum:
  "filter_mset P (sum f A) = (\<Sum>i \<in> A. filter_mset P (f i))"
  by (induction A rule: infinite_finite_induct) simp_all

lemma mergedOf_cong:
  assumes "mergeContract mg" "mset (fragmentsOf n es) = mset (fragmentsOf n es')"
  shows "mergedOf mg es n = mergedOf mg es' n" and "errorsOf mg es n = errorsOf mg es' n"
proof -
  have e: "(fragmentsOf n es = []) = (fragmentsOf n es' = [])"
    using assms(2) by (metis mset_zero_iff)
  show "mergedOf mg es n = mergedOf mg es' n"
    using e contract_perm[OF assms] by (simp add: mergedOf_def)
  show "errorsOf mg es n = errorsOf mg es' n"
    using e contract_perm[OF assms] by (simp add: errorsOf_def)
qed

lemma filter_mset_const:
  "(\<forall>x \<in># M. g x = n) \<Longrightarrow>
   filter_mset (\<lambda>x. g x \<notin> R) M = (if n \<in> R then {#} else M)"
  by (induction M) auto

lemma errorsOf_filter:
  assumes "mergeContract mg"
  shows "filter_mset (\<lambda>err. errTopLevelName err \<notin> R) (errorsOf mg es n) =
         (if n \<in> R then {#} else errorsOf mg es n)"
proof (cases "n \<in> fullNameOf ` set es")
  case False
  then show ?thesis by (simp add: errorsOf_outside)
next
  case True
  then have "\<forall>err \<in># errorsOf mg es n. errTopLevelName err = n"
    using contract_errs[OF assms True] by (simp add: errorsOf_def fragmentsOf_empty_iff)
  then show ?thesis by (rule filter_mset_const)
qed

lemma filter_mset_disjoint:
  "(\<forall>x. P x \<longrightarrow> \<not> Q x) \<Longrightarrow> filter_mset P (filter_mset Q M) = {#}"
  by (induction M) auto

lemma filter_mset_absorb:
  "(\<forall>x. P x \<longrightarrow> Q x) \<Longrightarrow> filter_mset P (filter_mset Q M) = filter_mset P M"
  by (induction M) auto

lemma warm_consistent:
  assumes c: "mergeContract mg" and s: "consistent mg cs"
    and pl: "\<forall>n \<in> set (relevantElementIDsOf (parsedNaclFiles cs) newNaclFiles).
               n \<notin> set objectPrototypeNames"
  shows "consistent mg (state (warmResult mg newNaclFiles cs))"
    and "\<forall>n \<in> set (relevantElementIDsOf (parsedNaclFiles cs) newNaclFiles).
           changeOf (mergedElements cs n)
             (mergedOf mg (allElements (allParsedOf (parsedNaclFiles cs) newNaclFiles)) n) = None
         \<Longrightarrow> changes (warmResult mg newNaclFiles cs) = []"
proof -
  let ?P = "parsedNaclFiles cs"
  let ?P' = "allParsedOf ?P newNaclFiles"
  let ?ids = "relevantElementIDsOf ?P newNaclFiles"
  let ?files = "relevantFilesOf (fst (indicesOf ?P')) ?ids"
  let ?toMerge = "concat (map (\<lambda>f. filter (\<lambda>e. fullNameOf e \<in> set ?ids)
                               (elementsOfFile ?P' (propertyKey f))) ?files)"
  let ?E = "allElements ?P"
  let ?E' = "allElements ?P'"
  have wf: "wfParsed ?P" and cm: "mergedElements cs = mergedOf mg ?E"
    and ce: "mset (mergeErrors cs) = errorsAll mg ?E"
    using s by (simp_all add: consistent_def)
  have wf': "wfParsed ?P'" using wf by (rule wfParsed_allParsedOf)
  have tm: "mset ?toMerge = filter_mset (\<lambda>e. fullNameOf e \<in> set ?ids) (mset ?E')"
    using toMerge_mset[OF wf' pl] by simp
  have aff: "mset (fragmentsOf n ?toMerge) = mset (fragmentsOf n ?E')" if "n \<in> set ?ids" for n
  proof -
    have "mset (fragmentsOf n ?toMerge) = filter_mset (\<lambda>e. fullNameOf e = n) (mset ?toMerge)"
      by (simp add: fragmentsOf_def)
    also have "\<dots> = filter_mset (\<lambda>e. fullNameOf e = n) (mset ?E')"
      unfolding tm using that by (intro filter_mset_absorb) simp
    finally show ?thesis by (simp add: fragmentsOf_def)
  qed
  have unaff0: "fragmentsOf n ?toMerge = []" if "n \<notin> set ?ids" for n
  proof -
    have "filter_mset (\<lambda>e. fullNameOf e = n) (mset ?toMerge) = {#}"
      unfolding tm using that by (intro filter_mset_disjoint) auto
    then show ?thesis by (simp add: fragmentsOf_def flip: mset_filter)
  qed
  have unaff: "mset (fragmentsOf n ?E') = mset (fragmentsOf n ?E)" if "n \<notin> set ?ids" for n
    using unaffected_fragments[OF wf that] .
  have newMerged: "map_of (keyBy fullNameOf (merged (mergeElements mg ?toMerge))) = mergedOf mg ?toMerge"
    using merged_map[OF c] .
  have m1: "mergedOf mg ?toMerge n = mergedOf mg ?E' n" if "n \<in> set ?ids" for n
    using mergedOf_cong(1)[OF c aff[OF that]] .
  have m2: "mergedOf mg ?toMerge n = None" if "n \<notin> set ?ids" for n
    using unaff0[OF that] by (simp add: mergedOf_def)
  have m3: "mergedOf mg ?E n = mergedOf mg ?E' n" if "n \<notin> set ?ids" for n
    using mergedOf_cong(1)[OF c unaff[OF that]] by simp
  have merged': "mergedElements (state (warmResult mg newNaclFiles cs)) = mergedOf mg ?E'"
  proof (rule ext)
    fix n
    show "mergedElements (state (warmResult mg newNaclFiles cs)) n = mergedOf mg ?E' n"
    proof (cases "n \<in> set ?ids")
      case True
      then show ?thesis
        using m1[OF True]
        by (simp add: warmResult_def Let_def buildNewMergedElementsAndErrors_def newMerged
            map_add_def split: option.splits)
    next
      case False
      then show ?thesis
        using m2[OF False] m3[OF False] cm
        by (simp add: warmResult_def Let_def buildNewMergedElementsAndErrors_def newMerged
            map_add_def split: option.splits)
    qed
  qed
  let ?K = "fullNameOf ` set ?E \<union> fullNameOf ` set ?E' \<union> fullNameOf ` set ?toMerge"
  have fin: "finite ?K" by simp
  have e1: "errorsOf mg ?toMerge n = (if n \<in> set ?ids then errorsOf mg ?E' n else {#})" for n
    using mergedOf_cong(2)[OF c aff, of n] unaff0[of n] by (simp add: errorsOf_def)
  have e2: "filter_mset (\<lambda>err. errTopLevelName err \<notin> set ?ids) (errorsOf mg ?E n) =
            (if n \<in> set ?ids then {#} else errorsOf mg ?E' n)" for n
    using errorsOf_filter[OF c, of "set ?ids" ?E n] mergedOf_cong(2)[OF c unaff, of n]
    by simp
  have a1: "errorsAll mg ?E = (\<Sum>n \<in> ?K. errorsOf mg ?E n)"
    by (rule errorsAll_superset[OF fin]) blast
  have a2: "errorsAll mg ?toMerge = (\<Sum>n \<in> ?K. errorsOf mg ?toMerge n)"
    by (rule errorsAll_superset[OF fin]) blast
  have a3: "errorsAll mg ?E' = (\<Sum>n \<in> ?K. errorsOf mg ?E' n)"
    by (rule errorsAll_superset[OF fin]) blast
  have "mset (mergeErrors (state (warmResult mg newNaclFiles cs))) =
        filter_mset (\<lambda>err. errTopLevelName err \<notin> set ?ids) (errorsAll mg ?E)
          + errorsAll mg ?toMerge"
    by (simp add: warmResult_def Let_def buildNewMergedElementsAndErrors_def ce merged_errors
        errorsAll_def)
  also have "\<dots> = (\<Sum>n \<in> ?K. filter_mset (\<lambda>err. errTopLevelName err \<notin> set ?ids) (errorsOf mg ?E n))
          + (\<Sum>n \<in> ?K. errorsOf mg ?toMerge n)"
    by (simp only: a1 a2 filter_mset_sum)
  also have "\<dots> = (\<Sum>n \<in> ?K. errorsOf mg ?E' n)"
    unfolding e1 e2 sum.distrib[symmetric] by (rule sum.cong) auto
  also have "\<dots> = errorsAll mg ?E'"
    by (rule a3[symmetric])
  finally have errs': "mset (mergeErrors (state (warmResult mg newNaclFiles cs))) = errorsAll mg ?E'" .
  show "consistent mg (state (warmResult mg newNaclFiles cs))"
    unfolding consistent_def using merged' errs' wf'
    by (simp add: warmResult_def Let_def)
  assume nochange: "\<forall>n \<in> set ?ids. changeOf (mergedElements cs n) (mergedOf mg ?E' n) = None"
  have "List.map_filter (\<lambda>k. changeOf (mergedElements cs k) (mergedOf mg ?toMerge k)) ?ids = []"
    using nochange m1 by (simp add: List.map_filter_def filter_empty_conv)
  then show "changes (warmResult mg newNaclFiles cs) = []"
    by (simp add: warmResult_def Let_def buildNewMergedElementsAndErrors_def newMerged)
qed

lemma spread_Nil: "distinct (map fst b) \<Longrightarrow> spread [] b = ownKeyOrder b"
  using foldl_update_distinct[of "[]" fst b snd] by (simp add: spread_def)

lemma allParsedOf_Nil:
  "distinct (map filename fs) \<Longrightarrow>
   allParsedOf [] fs =
     filter (\<lambda>kp. \<not> (elements (snd kp) = [] \<and> errors (snd kp) = []))
       (ownKeyOrder (map (\<lambda>p. (filename p, p)) fs))"
proof -
  assume d: "distinct (map filename fs)"
  have "distinct (map fst (keyBy filename fs))" by (rule distinct_keyBy)
  then have "spread [] (keyBy filename fs) = ownKeyOrder (keyBy filename fs)"
    by (rule spread_Nil)
  also have "\<dots> = ownKeyOrder (map (\<lambda>p. (filename p, p)) fs)"
    unfolding keyBy_distinct_keys[OF d] by (rule ownKeyOrder_idem)
  finally show ?thesis
    by (simp add: allParsedOf_def omitBy_def case_prod_unfold)
qed

lemma mset_allElements:
  "mset (allElements m) = (\<Sum>kp \<in># mset m. mset (elements (snd kp)))"
  by (induction m) (simp_all add: allElements_def)

lemma mset_allElements_cold:
  assumes "distinct (map filename fs)"
  shows "mset (allElements (allParsedOf [] fs)) = mset (newNaclFilesElementsOf fs)"
proof -
  let ?Q = "\<lambda>kp :: string \<times> parsedNaclFile. \<not> (elements (snd kp) = [] \<and> errors (snd kp) = [])"
  let ?g = "\<lambda>kp :: string \<times> parsedNaclFile. mset (elements (snd kp))"
  have z: "(\<Sum>kp \<in># filter_mset (\<lambda>kp. \<not> ?Q kp) M. ?g kp) = {#}" for M
    by (induction M) auto
  have "mset (allElements (allParsedOf [] fs)) =
        (\<Sum>kp \<in># filter_mset ?Q (mset (map (\<lambda>p. (filename p, p)) fs)). ?g kp)"
    unfolding allParsedOf_Nil[OF assms] mset_allElements
    by (simp only: mset_filter mset_ownKeyOrder)
  also have "\<dots> = (\<Sum>kp \<in># filter_mset ?Q (mset (map (\<lambda>p. (filename p, p)) fs)). ?g kp) +
        (\<Sum>kp \<in># filter_mset (\<lambda>kp. \<not> ?Q kp) (mset (map (\<lambda>p. (filename p, p)) fs)). ?g kp)"
    by (simp only: z add.right_neutral)
  also have "\<dots> = (\<Sum>kp \<in># mset (map (\<lambda>p. (filename p, p)) fs). ?g kp)"
    by (simp only: image_mset_union[symmetric] sum_mset.union[symmetric] multiset_partition[symmetric])
  also have "\<dots> = mset (newNaclFilesElementsOf fs)"
    by (induction fs) (simp_all add: newNaclFilesElementsOf_def)
  finally show ?thesis .
qed

lemma mergedOf_mset:
  assumes "mergeContract mg" "mset es = mset es'"
  shows "mergedOf mg es = mergedOf mg es'" and "errorsAll mg es = errorsAll mg es'"
proof -
  have fr: "mset (fragmentsOf n es) = mset (fragmentsOf n es')" for n
    using assms(2) by (simp add: fragmentsOf_def)
  show "mergedOf mg es = mergedOf mg es'"
    by (rule ext) (rule mergedOf_cong(1)[OF assms(1) fr])
  have "set es = set es'" using assms(2) by (rule mset_eq_setD)
  then show "errorsAll mg es = errorsAll mg es'"
    unfolding errorsAll_def using mergedOf_cong(2)[OF assms(1) fr] by simp
qed

lemma cold_consistent:
  assumes "mergeContract mg" "distinct (map filename fs)" "buildNaclFilesState mg fs None = Inr r"
  shows "consistent mg (state r)"
proof -
  note d = cold_D[OF assms(3)]
  have m: "mset (newNaclFilesElementsOf fs) = mset (allElements (allParsedOf [] fs))"
    using mset_allElements_cold[OF assms(2)] by simp
  show ?thesis
    unfolding consistent_def d(2) d(5) d(6)
    using wfParsed_allParsedOf[OF wfParsed_Nil, of fs] mergedOf_mset[OF assms(1) m]
    by (simp add: merged_map[OF assms(1)] merged_errors errorsAll_def)
qed


lemma exMerge_contract: "mergeContract exMerge"
proof -
  have k1: "exMerge xs = exMerge ys"
    if "\<forall>e \<in> set xs. fullNameOf e = n" "mset xs = mset ys" for xs ys n
  proof -
    have l: "length xs = length ys" using that(2) by (rule mset_eq_length)
    have s: "set xs = set ys" using that(2) by (rule mset_eq_setD)
    show ?thesis
    proof (cases xs)
      case Nil
      then show ?thesis using l by simp
    next
      case (Cons x xs')
      then obtain y ys' where ys: "ys = y # ys'" using l by (cases ys) auto
      show ?thesis
      proof (cases xs')
        case Nil
        then have "ys' = []" using l Cons ys by simp
        then show ?thesis using s Cons Nil ys by (simp add: exMerge_def)
      next
        case (Cons x' xs'')
        then have "ys' \<noteq> []" using l \<open>xs = x # xs'\<close> ys by auto
        moreover have "fullNameOf y = fullNameOf x"
          using that(1) s \<open>xs = x # xs'\<close> ys by auto
        ultimately show ?thesis using Cons \<open>xs = x # xs'\<close> ys by (simp add: exMerge_def)
      qed
    qed
  qed
  have k2: "fullNameOf (fst (exMerge xs)) = n \<and> (\<forall>err \<in> set (snd (exMerge xs)). errTopLevelName err = n)"
    if "xs \<noteq> []" "\<forall>e \<in> set xs. fullNameOf e = n" for xs n
    using that
    by (cases xs) (auto simp: exMerge_def fullNameOf_def getFullName_def errTopLevelName_def
        createTopLevelParentID_def)
  show ?thesis
    unfolding mergeContract_def mergeKeepsIdentity_def mergeOrderInsensitive_def
    using k1 k2 by blast
qed






lemma ex_distinct: "distinct (map filename [exFileA, exFileB])"
  by (simp add: exFileA_def exFileB_def)





lemma cold_file_kept:
  assumes "distinct (map filename fs)" "p \<in> set fs" "\<not> (elements p = [] \<and> errors p = [])"
    and "distinct (map fst current)"
  shows "map_of (allParsedOf current fs) (filename p) = Some p"
proof -
  have "map_of (map (\<lambda>x. (filename x, x)) (rev fs)) (filename p) = Some p"
    using assms(1,2) by (intro map_of_is_SomeI) (auto simp: rev_map[symmetric] comp_def)
  then have "map_of (keyBy filename fs) (filename p) = Some p" by (simp add: map_of_keyBy)
  then show ?thesis using assms(3) by (auto simp: map_of_allParsedOf[OF assms(4)])
qed

text \<open>
  Claim C2, as amended. For a combiner that keeps the identity and does not depend on the
  order of the fragments (\<open>mergeContract\<close>): when the cold start from a set of parsed files
  (distinct file names) has returned, ingesting the same files a second time, through the warm
  path over the state the cold start built, returns the same \<open>mergedElements\<close> map and an
  empty change list.
\<close>

theorem reingest_same_files_idempotent:
  assumes "mergeContract mg" and "distinct (map filename files)"
    and "buildNaclFilesState mg files None = Inr r1"
  shows "\<exists>r2. buildNaclFilesState mg files (Some (state r1)) = Inr r2 \<and>
           mergedElements (state r2) = mergedElements (state r1) \<and>
           changes r2 = []"
proof -
  let ?P = "parsedNaclFiles (state r1)"
  let ?P' = "allParsedOf ?P files"
  let ?K = "fst ` set ?P' \<union> fst ` set ?P"
  have c1: "consistent mg (state r1)" using cold_consistent[OF assms] .
  have re: "reachable mg (state r1)" using assms(3) by (rule reachable.cold)
  have wf: "wfParsed ?P" using c1 by (simp add: consistent_def)
  have wf': "wfParsed ?P'" using wf by (rule wfParsed_allParsedOf)
  have d: "distinct (map fst ?P)" "distinct (map fst ?P')"
    using wf wf' by (simp_all add: wfParsed_def)
  have P: "?P = allParsedOf [] files" using cold_D(2)[OF assms(3)] .
  have ixP: "indexable ?P" using re by (rule reachable_indexable)
  have ix: "indexable ?P'"
    unfolding indexable_def
  proof
    fix kp assume "kp \<in> set ?P'"
    then have kp: "(fst kp, snd kp) \<in> set ?P'" by simp
    from allParsedOf_values[OF d(1) kp]
    have "(fst kp, snd kp) \<in> set ?P \<or> (snd kp \<in> set files \<and> filename (snd kp) = fst kp)" .
    then show "fileIndexable (snd kp)"
    proof
      assume "(fst kp, snd kp) \<in> set ?P"
      then show ?thesis using ixP by (force simp: indexable_def)
    next
      assume a: "snd kp \<in> set files \<and> filename (snd kp) = fst kp"
      have "\<not> (elements (snd kp) = [] \<and> errors (snd kp) = [])"
        using allParsedOf_nonempty[OF kp] .
      from cold_file_kept[OF assms(2) _ this, of "[]"] a
      have "map_of ?P (filename (snd kp)) = Some (snd kp)" unfolding P by simp
      then have "(filename (snd kp), snd kp) \<in> set ?P" by (rule map_of_SomeD)
      then show ?thesis using ixP by (force simp: indexable_def)
    qed
  qed
  have pl: "\<forall>n \<in> set (relevantElementIDsOf ?P files). n \<notin> set objectPrototypeNames"
    using relevant_ids_plain[OF ixP distinct_batch_plain[OF d(1) assms(2) ix]] .
  have "elementsOfFile (allParsedOf [] files) k =
      (case map_of (keyBy filename files) k of None \<Rightarrow> [] | Some p \<Rightarrow> elements p)" for k
    by (simp add: elementsOfFile_allParsedOf elementsOfFile_missing split: option.splits)
  then have a: "elementsOfFile ?P k =
      (case map_of (keyBy filename files) k of None \<Rightarrow> [] | Some p \<Rightarrow> elements p)" for k
    using P by simp
  have "elementsOfFile ?P' k = elementsOfFile ?P k" for k
    unfolding elementsOfFile_allParsedOf[OF d(1)] by (simp add: a split: option.splits)
  then have "filter_mset Q (mset (allElements ?P')) = filter_mset Q (mset (allElements ?P))" for Q
    by (simp add: frag_sum[OF d(1), of ?K] frag_sum[OF d(2), of ?K])
  then have fr: "mset (fragmentsOf n (allElements ?P')) = mset (fragmentsOf n (allElements ?P))" for n
    by (simp add: fragmentsOf_def)
  have same: "mergedOf mg (allElements ?P') = mergedOf mg (allElements ?P)"
    by (rule ext) (rule mergedOf_cong(1)[OF assms(1) fr])
  let ?r2 = "warmResult mg files (state r1)"
  have "buildNaclFilesState mg files (Some (state r1)) = Inr ?r2"
    using warm_Inr[OF wf ix pl] .
  moreover have "mergedElements (state ?r2) = mergedElements (state r1)"
    using warm_consistent(1)[OF assms(1) c1 pl] c1 same
    by (simp add: consistent_def warmResult_def Let_def)
  moreover have "changes ?r2 = []"
  proof (rule warm_consistent(2)[OF assms(1) c1 pl])
    show "\<forall>n\<in>set (relevantElementIDsOf ?P files).
       changeOf (mergedElements (state r1) n) (mergedOf mg (allElements ?P') n) = None"
      using c1 same by (simp add: consistent_def changeOf_def split: option.splits)
  qed
  ultimately show ?thesis by blast
qed

theorem reingest_same_files_idempotent_witness:
  "mergeContract exMerge \<and> distinct (map filename [exFileA, exFileB]) \<and>
   (\<exists>r2. buildNaclFilesState exMerge [exFileA, exFileB] (Some exState) = Inr r2 \<and>
      mergedElements (state r2) = mergedElements exState \<and> changes r2 = []) \<and>
   map_sum id changes (buildNaclFilesState exMerge [exFileA, exFileB] (Some exState)) = Inr []"
proof -
  have "map_sum id changes (buildNaclFilesState exMerge [exFileA, exFileB] (Some exState)) = Inr []"
    by code_simp
  then show ?thesis
    using reingest_same_files_idempotent[OF exMerge_contract ex_distinct exState_cold]
      exMerge_contract ex_distinct
    unfolding exState_def by (intro conjI)
qed

text \<open>
  Claim C2 as stated fails. With a combiner that lets the first fragment decide, the cold
  start merges the fragments of \<open>x\<close> in the order of the files (\<open>2.nacl\<close> before \<open>3.nacl\<close>);
  ingesting the same three files again, the warm path collects the relevant files identity by
  identity (\<open>1.nacl\<close> and \<open>3.nacl\<close> for \<open>a\<close>, then \<open>2.nacl\<close> for \<open>x\<close>), so the fragment of
  \<open>3.nacl\<close> comes first, the merged \<open>x\<close> changes and a modification is reported.
\<close>

theorem reingest_changes_merged_elements:
  "\<not> isl (buildNaclFilesState exMergeFirst [exFile1, exFile2, exFile3] None) \<and>
   mergedElements exState123 ''x'' = Some exX1 \<and>
   \<not> isl (buildNaclFilesState exMergeFirst [exFile1, exFile2, exFile3] (Some exState123)) \<and>
   mergedElements (state (projr
     (buildNaclFilesState exMergeFirst [exFile1, exFile2, exFile3] (Some exState123)))) ''x''
     = Some exX2 \<and>
   changes (projr
     (buildNaclFilesState exMergeFirst [exFile1, exFile2, exFile3] (Some exState123)))
     = [Modification exX1 exX2]"
proof -
  have a1: "\<not> isl (buildNaclFilesState exMergeFirst [exFile1, exFile2, exFile3] None)"
    by code_simp
  have a2: "mergedElements exState123 ''x'' = Some exX1" by code_simp
  have a3: "\<not> isl (buildNaclFilesState exMergeFirst [exFile1, exFile2, exFile3] (Some exState123))"
    by code_simp
  have a4: "mergedElements (state (projr
     (buildNaclFilesState exMergeFirst [exFile1, exFile2, exFile3] (Some exState123)))) ''x''
     = Some exX2" by code_simp
  have a5: "changes (projr
     (buildNaclFilesState exMergeFirst [exFile1, exFile2, exFile3] (Some exState123)))
     = [Modification exX1 exX2]" by code_simp
  show ?thesis using a1 a2 a3 a4 a5 by (intro conjI)
qed

lemma exMergeFirst_keeps_identity: "mergeKeepsIdentity exMergeFirst"
  unfolding mergeKeepsIdentity_def
proof (intro allI impI)
  fix xs :: "element list" and n
  assume "xs \<noteq> [] \<and> (\<forall>e \<in> set xs. fullNameOf e = n)"
  then show "fullNameOf (fst (exMergeFirst xs)) = n \<and>
        (\<forall>err \<in> set (snd (exMergeFirst xs)). errTopLevelName err = n)"
    by (cases xs) (auto simp: exMergeFirst_def fullNameOf_def getFullName_def errTopLevelName_def
        createTopLevelParentID_def)
qed

subsection \<open>The reference extractor\<close>

lemma set_setAdd: "set (setAdd s x) = insert x (set s)"
  by (auto simp: setAdd_def)

lemma set_foldl_setAdd_fun:
  "set (foldl (\<lambda>r i. setAdd r (g i)) r xs) = set r \<union> g ` set xs"
  by (induction xs arbitrary: r) (auto simp: set_setAdd)

lemma fieldRefs_mono: "set r \<subseteq> set (fieldRefs a r)"
  by (auto simp: fieldRefs_def set_setAdd split: option.splits)

lemma transformFunc_other:
  "(\<forall>i. tfValue a \<noteq> ReferenceExpression i) \<Longrightarrow> transformFunc a r = fieldRefs a r"
  by (cases "tfValue a") (simp_all add: transformFunc_def fieldRefs_def)

lemma transformFunc_ref:
  assumes "tfValue a = ReferenceExpression i"
  shows "set (transformFunc a r) =
     set (fieldRefs a r) \<union> {getFullName (fst (createTopLevelParentID i))} \<union>
     (\<lambda>index. getFullName (createNestedID (fst (createTopLevelParentID i))
         (if idType i \<noteq> idType (fst (createTopLevelParentID i)) then [idType i] else [])
         (take (index + 1) (snd (createTopLevelParentID i)))))
       ` {0..<length (snd (createTopLevelParentID i))}"
  using assms
  by (simp add: transformFunc_def fieldRefs_def[symmetric] Let_def set_foldl_setAdd_fun
      set_setAdd image_image del: upt_Suc) 

lemma transformFunc_mono: "set r \<subseteq> set (transformFunc a r)"
proof (cases "\<exists>i. tfValue a = ReferenceExpression i")
  case True
  then obtain i where "tfValue a = ReferenceExpression i" by blast
  from transformFunc_ref[OF this, of r] show ?thesis using fieldRefs_mono[of r a] by blast
next
  case False
  then show ?thesis using fieldRefs_mono[of r a] by (simp add: transformFunc_other)
qed

lemma foldl_transformFunc_mono: "set r \<subseteq> set (foldl (\<lambda>r a. transformFunc a r) r as)"
proof (induction as arbitrary: r)
  case Nil
  then show ?case by simp
next
  case (Cons a as)
  show ?case using Cons.IH[of "transformFunc a r"] transformFunc_mono[of r a] by auto
qed

lemma nested_fullName:
  "getFullName (createNestedID (fst (createTopLevelParentID i)) ks
      (take (j + 1) (snd (createTopLevelParentID i)))) =
   getFullName (ElemID (idType i) (topLevelName i) (take (Suc j) (nestedPath i)))"
  by (simp add: createNestedID_def createTopLevelParentID_def getFullName_def)

lemma parent_fullName:
  "getFullName (fst (createTopLevelParentID i)) =
   getFullName (ElemID (idType i) (topLevelName i) (take 0 (nestedPath i)))"
  by (simp add: createTopLevelParentID_def getFullName_def)

lemma transformFunc_reference:
  assumes "tfValue a = ReferenceExpression i" "k \<le> length (nestedPath i)"
  shows "getFullName (ElemID (idType i) (topLevelName i) (take k (nestedPath i)))
           \<in> set (transformFunc a r)"
proof (cases k)
  case 0
  then show ?thesis
    unfolding transformFunc_ref[OF assms(1)] parent_fullName by simp
next
  case (Suc j)
  then have j: "j \<in> {0..<length (snd (createTopLevelParentID i))}"
    using assms(2) by (simp add: createTopLevelParentID_def)
  show ?thesis
    unfolding transformFunc_ref[OF assms(1)] nested_fullName Suc
    using j by blast
qed

lemma foldl_transformFunc_reference:
  assumes "a \<in> set as" "tfValue a = ReferenceExpression i" "k \<le> length (nestedPath i)"
  shows "getFullName (ElemID (idType i) (topLevelName i) (take k (nestedPath i)))
           \<in> set (foldl (\<lambda>r a. transformFunc a r) r as)"
  using assms(1)
proof (induction as arbitrary: r)
  case Nil
  then show ?case by simp
next
  case (Cons b as)
  show ?case
  proof (cases "a = b")
    case True
    then show ?thesis
      using transformFunc_reference[OF assms(2,3), of r]
        foldl_transformFunc_mono[of "transformFunc a r" as] by auto
  next
    case False
    then show ?thesis using Cons by simp
  qed
qed

lemma walk_visits_references:
  "r \<in> set (refsIn v) \<Longrightarrow> \<exists>a \<in> set (walkValue fld path v). tfValue a = ReferenceExpression r"
  "r \<in> set (concat (map refsIn vs)) \<Longrightarrow>
     \<exists>a \<in> set (walkItems fld path i vs). tfValue a = ReferenceExpression r"
  "r \<in> set (concat (map (\<lambda>kv. refsIn (snd kv)) kvs)) \<Longrightarrow>
     \<exists>a \<in> set (walkEntries fs path kvs). tfValue a = ReferenceExpression r"
proof (induction fld path v and fld path i vs and fs path kvs
    rule: walkValue_walkItems_walkEntries.induct)
  case (1 fld path p)
  then show ?case by simp
next
  case (2 fld path r')
  then show ?case by simp
next
  case (3 fld path vs)
  from "3.prems" have "r \<in> set (concat (map refsIn vs))" by simp
  from "3.IH"[OF this] obtain a where "a \<in> set (walkItems fld path 0 vs)"
    "tfValue a = ReferenceExpression r" by blast
  then show ?case by (intro bexI[of _ a]) simp_all
next
  case (4 fld path kvs)
  from "4.prems" have "r \<in> set (concat (map (\<lambda>kv. refsIn (snd kv)) kvs))" by simp
  from "4.IH"[OF this] obtain a where
    "a \<in> set (walkEntries (case fld of None \<Rightarrow> [] | Some f \<Rightarrow> fieldsOfType (fieldType f)) path kvs)"
    "tfValue a = ReferenceExpression r" by blast
  then show ?case by (intro bexI[of _ a]) simp_all
next
  case (5 fld path i)
  then show ?case by simp
next
  case (6 fld path i v vs)
  from "6.prems" have "r \<in> set (refsIn v) \<or> r \<in> set (concat (map refsIn vs))" by simp
  then show ?case
  proof
    assume "r \<in> set (refsIn v)"
    from "6.IH"(1)[OF this] obtain a where
      "a \<in> set (walkValue fld (createNestedID path [] [showNat i]) v)"
      "tfValue a = ReferenceExpression r" by blast
    then show ?case by (intro bexI[of _ a]) simp_all
  next
    assume "r \<in> set (concat (map refsIn vs))"
    from "6.IH"(2)[OF this] obtain a where "a \<in> set (walkItems fld path (Suc i) vs)"
      "tfValue a = ReferenceExpression r" by blast
    then show ?case by (intro bexI[of _ a]) simp_all
  qed
next
  case (7 fs path)
  then show ?case by simp
next
  case (8 fs path kv kvs)
  from "8.prems" have "r \<in> set (refsIn (snd kv)) \<or>
      r \<in> set (concat (map (\<lambda>kv. refsIn (snd kv)) kvs))" by simp
  then show ?case
  proof
    assume "r \<in> set (refsIn (snd kv))"
    from "8.IH"(1)[OF this] obtain a where
      "a \<in> set (walkValue (map_of fs (fst kv)) (createNestedID path [] [fst kv]) (snd kv))"
      "tfValue a = ReferenceExpression r" by blast
    then show ?case by (intro bexI[of _ a]) simp_all
  next
    assume "r \<in> set (concat (map (\<lambda>kv. refsIn (snd kv)) kvs))"
    from "8.IH"(2)[OF this] obtain a where "a \<in> set (walkEntries fs path kvs)"
      "tfValue a = ReferenceExpression r" by blast
    then show ?case by (intro bexI[of _ a]) simp_all
  qed
qed

lemma set_valueTree_ObjectType:
  "set (valueTree (ObjectType i fs ats anns)) =
     snd ` set anns \<union> (\<Union>nf \<in> set fs. snd ` set (snd (snd nf)))"
  by auto

lemma entries_refs:
  "v \<in> snd ` set kvs \<Longrightarrow> r \<in> set (refsIn v) \<Longrightarrow>
   r \<in> set (concat (map (\<lambda>kv. refsIn (snd kv)) kvs))"
  by auto

lemma transformElement_visits_references:
  assumes "\<not> isContainerType el" "v \<in> set (valueTree el)" "r \<in> set (refsIn v)" "\<not> isVariable el"
  shows "\<exists>a \<in> set (transformElement el). tfValue a = ReferenceExpression r"
proof (cases el)
  case (ObjectType i fs ats anns)
  from assms(2) have "v \<in> snd ` set anns \<or> (\<exists>nf \<in> set fs. v \<in> snd ` set (snd (snd nf)))"
    unfolding ObjectType set_valueTree_ObjectType by blast
  then show ?thesis
  proof
    assume "v \<in> snd ` set anns"
    from walk_visits_references(3)[OF entries_refs[OF this assms(3)]]
    obtain a where "a \<in> set (walkEntries (annotationFields el) (createNestedID i [IdAttr] []) anns)"
      "tfValue a = ReferenceExpression r" by blast
    then show ?thesis unfolding ObjectType by auto
  next
    assume "\<exists>nf \<in> set fs. v \<in> snd ` set (snd (snd nf))"
    then obtain nf where nf: "nf \<in> set fs" "v \<in> snd ` set (snd (snd nf))" by blast
    from walk_visits_references(3)[OF entries_refs[OF nf(2) assms(3)]]
    obtain a where a: "a \<in> set (walkEntries (annotationFields (fieldType (snd nf)))
        (createNestedID i [IdField] [fst nf]) (snd (snd nf)))"
      "tfValue a = ReferenceExpression r" by blast
    have "a \<in> set (transformElement el)"
      unfolding ObjectType using a(1) nf(1) by (simp del: walkEntries.simps) blast
    then show ?thesis using a(2) by blast
  qed
next
  case (PrimitiveType i ats anns)
  then have "v \<in> snd ` set anns" using assms(2) by simp
  from walk_visits_references(3)[OF entries_refs[OF this assms(3)]]
  obtain a where "a \<in> set (walkEntries (annotationFields el) (createNestedID i [IdAttr] []) anns)"
    "tfValue a = ReferenceExpression r" by blast
  then show ?thesis unfolding PrimitiveType by auto
next
  case (ContainerType i inner)
  then show ?thesis using assms(1) by simp
next
  case (InstanceElement i t val ats anns)
  from assms(2) have "v \<in> snd ` set val \<or> v \<in> snd ` set anns"
    unfolding InstanceElement by auto
  then show ?thesis
  proof
    assume "v \<in> snd ` set val"
    from walk_visits_references(3)[OF entries_refs[OF this assms(3)]]
    obtain a where "a \<in> set (walkEntries (fieldsOfType t) i val)"
      "tfValue a = ReferenceExpression r" by blast
    then show ?thesis unfolding InstanceElement by auto
  next
    assume "v \<in> snd ` set anns"
    from walk_visits_references(3)[OF entries_refs[OF this assms(3)]]
    obtain a where "a \<in> set (walkEntries (annotationFields el) i anns)"
      "tfValue a = ReferenceExpression r" by blast
    then show ?thesis unfolding InstanceElement by auto
  qed
next
  case (Variable i v')
  then show ?thesis using assms(4) by simp
qed

text \<open>
  Claim C4. For every element that is neither a container type nor a variable, and every
  reference expression to an identity found anywhere in the element's value tree, the output
  of \<open>getElementReferenced\<close> contains the full name of the top-level identity (\<open>k = 0\<close>) and
  of every nested identity along the path of the reference (\<open>a\<close>, \<open>a.b\<close> and \<open>a.b.c\<close> for a
  reference to \<open>a.b.c\<close>); and for every instance it contains the identity of the instance's
  type.
\<close>

theorem references_and_instance_type_extracted:
  "(\<not> isContainerType el \<and> \<not> isVariable el \<longrightarrow>
      (\<forall>v \<in> set (valueTree el). \<forall>r \<in> set (refsIn v). \<forall>k \<le> length (nestedPath r).
         getFullName (ElemID (idType r) (topLevelName r) (take k (nestedPath r)))
           \<in> set (getElementReferenced el))) \<and>
   (\<forall>i t v ats anns. el = InstanceElement i t v ats anns \<longrightarrow>
      getFullName (elemID t) \<in> set (getElementReferenced el))"
proof (intro conjI impI ballI allI)
  fix v r k
  assume el: "\<not> isContainerType el \<and> \<not> isVariable el"
    and v: "v \<in> set (valueTree el)" and r: "r \<in> set (refsIn v)"
    and k: "k \<le> length (nestedPath r)"
  obtain a where a: "a \<in> set (transformElement el)" "tfValue a = ReferenceExpression r"
    using transformElement_visits_references[OF _ v r] el by blast
  show "getFullName (ElemID (idType r) (topLevelName r) (take k (nestedPath r)))
           \<in> set (getElementReferenced el)"
    using foldl_transformFunc_reference[OF a k] el
    by (simp add: getElementReferenced_def Let_def del: transformElement.simps)
next
  fix i t v ats anns
  assume el: "el = InstanceElement i t v ats anns"
  define r3 where "r3 = foldl setAdd (setAdd [] (getFullName (elemID t)))
          (map getFullName (map getTypeOrContainerTypeID (map snd ats)))"
  have "getFullName (elemID t) \<in> set r3"
    by (simp add: r3_def set_foldl_setAdd set_setAdd)
  moreover have "getElementReferenced el = foldl (\<lambda>r args. transformFunc args r) r3 (transformElement el)"
    by (simp add: el getElementReferenced_def r3_def del: transformElement.simps)
  ultimately show "getFullName (elemID t) \<in> set (getElementReferenced el)"
    using foldl_transformFunc_mono[of r3 "transformElement el"] by auto
qed

theorem references_and_instance_type_extracted_witness:
  "\<not> isContainerType exInstance \<and> \<not> isVariable exInstance \<and>
   getFullName (ElemID IdField ''a'' (take 1 [''b'', ''c'']))
     \<in> set (getElementReferenced exInstance) \<and>
   getFullName (elemID exTypeT) \<in> set (getElementReferenced exInstance) \<and>
   getElementReferenced exInstance = [''t'', ''y'', ''a'', ''a.b'', ''a.b.c'']"
proof -
  have h: "\<not> isContainerType exInstance \<and> \<not> isVariable exInstance"
    by (simp add: exInstance_def)
  have v: "ListValue [ReferenceExpression (ElemID IdField ''a'' [''b'', ''c''])]
      \<in> set (valueTree exInstance)"
    by (simp add: exInstance_def)
  have r: "ElemID IdField ''a'' [''b'', ''c'']
      \<in> set (refsIn (ListValue [ReferenceExpression (ElemID IdField ''a'' [''b'', ''c''])]))"
    by simp
  have k: "1 \<le> length (nestedPath (ElemID IdField ''a'' [''b'', ''c'']))" by simp
  have a: "getFullName (ElemID IdField ''a'' (take 1 [''b'', ''c'']))
     \<in> set (getElementReferenced exInstance)"
    using references_and_instance_type_extracted[of exInstance] h v r k by fastforce
  have b: "getFullName (elemID exTypeT) \<in> set (getElementReferenced exInstance)"
    using references_and_instance_type_extracted[of exInstance] by (simp add: exInstance_def)
  have c: "getElementReferenced exInstance = [''t'', ''y'', ''a'', ''a.b'', ''a.b.c'']"
    by (simp add: exInstance_def exTypeT_def exTypeY_def getElementReferenced_def
        transformFunc_def setAdd_def getFullName_def getTypeOrContainerTypeID_def
        createTopLevelParentID_def createNestedID_def topLevelIdType_def fieldsOfType_def
        annotationFields_def fieldType_def name_def isIndexPathPart_def digitChar_def
        Let_def upt_rec)
  show ?thesis using h a b c by blast
qed

subsection \<open>The operations of the source\<close>

text \<open>
  Claim C7. \<open>clear\<close> with static resources requested but the nacl files or the cache not
  requested returns the error and leaves the source as it was: the static files source, the
  nacl file store, the cache and the state are untouched.
\<close>

theorem clear_static_resources_alone_rejected:
  assumes "truthy (staticResources args)" and "\<not> (truthy (cacheArg args) \<and> truthy (nacl args))"
  shows "clear (Some args) src =
           (Inl (Error ''Cannot clear static resources without clearing the cache and nacls''),
            src)"
  using assms by (simp add: clear_def)

theorem clear_static_resources_alone_rejected_witness:
  "truthy (staticResources (ClearArgs (Some True) (Some True) None)) \<and>
   \<not> (truthy (cacheArg (ClearArgs (Some True) (Some True) None)) \<and>
      truthy (nacl (ClearArgs (Some True) (Some True) None))) \<and>
   clear (Some (ClearArgs (Some True) (Some True) None)) exSource =
     (Inl (Error ''Cannot clear static resources without clearing the cache and nacls''),
      exSource) \<and>
   naclFilesStore (snd (clear (Some (ClearArgs (Some True) (Some True) None)) exSource)) =
     [(''a.nacl'', NaclFile ''x'' ''a.nacl'' (Some 1))] \<and>
   staticFileSource (snd (clear (Some (ClearArgs (Some True) (Some True) None)) exSource)) =
     [''blob'']"
proof -
  have a: "truthy (staticResources (ClearArgs (Some True) (Some True) None))"
    by (simp add: truthy_def)
  have b: "\<not> (truthy (cacheArg (ClearArgs (Some True) (Some True) None)) \<and>
      truthy (nacl (ClearArgs (Some True) (Some True) None)))"
    by (simp add: truthy_def)
  show ?thesis
    using clear_static_resources_alone_rejected[OF a b, of exSource] a b
    by (simp add: exSource_def)
qed


lemma parseNaclFile_state: "sourceState (snd (parseNaclFile ext f src)) = sourceState src"
  by (simp add: parseNaclFile_def Let_def split: sum.splits)

lemma parseOneNaclFile_state: "sourceState (snd (parseOneNaclFile ext f src)) = sourceState src"
  using parseNaclFile_state[of ext f src]
  by (auto simp: parseOneNaclFile_def Let_def bindE_def split: option.splits prod.splits sum.splits)

lemma mapIO_state:
  assumes "\<And>x s. sourceState (snd (f x s)) = sourceState s"
  shows "sourceState (snd (mapIO f xs src)) = sourceState src"
proof (induction xs arbitrary: src)
  case Nil
  then show ?case by (simp add: returnE_def)
next
  case (Cons x xs)
  show ?case
    using assms[of x src] Cons.IH[of "snd (f x src)"]
    by (auto simp: bindE_def returnE_def split: prod.splits sum.splits)
qed

lemma parseNaclFiles_state: "sourceState (snd (parseNaclFiles ext fs src)) = sourceState src"
  unfolding parseNaclFiles_def by (rule mapIO_state) (rule parseOneNaclFile_state)

lemma storeFiles_state: "sourceState (storeFiles fs src) = sourceState src"
  by (simp add: storeFiles_def Let_def)






lemma getSourceMap_known_file_not_in_store:
  assumes "sourceState src = Some (Resolved s)" and "map_of (parsedNaclFiles s) fname = Some p"
    and "cache src (cacheResultKey (clock src) (Some (filename p)) (Some (timestamp p)) None) = None"
    and "map_of (naclFilesStore src) fname = None"
  shows "getSourceMap ext fname src = (Inr [], src)"
  using assms
  by (simp add: getSourceMap_def getSourceMapOf_def getState_def bindE_def getProperty_def)

text \<open>
  Claim C10 fails on the code. For a file name that is in neither the store nor the cache, and
  so is no key of \<open>parsedNaclFiles\<close> after the cold start either, \<open>getSourceMap\<close> throws a
  TypeError at \<open>cacheResultKey(parsedNaclFile)\<close> before it reaches the guard that returns the
  empty source map (\<open>getSourceMap_known_file_not_in_store\<close> is what the guard does for a file
  that the state still holds).
\<close>

theorem getSourceMap_missing_file_throws:
  "map_of (naclFilesStore exSource) ''missing.nacl'' = None \<and>
   cache exSource = Map.empty \<and>
   fst (getSourceMap exExt ''missing.nacl'' exSource) =
     Inl (TypeError ''Cannot read property filename of undefined'')"
proof -
  have "fst (getSourceMap exExt ''missing.nacl'' exSource) =
     Inl (TypeError ''Cannot read property filename of undefined'')"
    by code_simp
  then show ?thesis by (simp add: exSource_def)
qed

text \<open>
  A file name that is a property name of \<open>Object.prototype\<close> reads an inherited value from
  \<open>parsedNaclFiles\<close>, so \<open>getSourceMap\<close> goes on to the guard and returns the empty source
  map.
\<close>

lemma getSourceMap_inherited_name:
  "fst (getSourceMap exExt ''constructor'' exSource) = Inr []"
  by code_simp



















lemma getParsedNaclFiles_state:
  "sourceState (snd (getParsedNaclFiles ext src)) = sourceState src"
  by (simp add: getParsedNaclFiles_def parseNaclFiles_state)












lemma ingest_Resolved:
  assumes "sourceState src = Some (Resolved s)"
  shows "ingest ext parsedFiles src =
     (case buildNaclFilesState (mergeFragments ext) parsedFiles (Some s) of
        Inl e \<Rightarrow> (Inl e, src)
      | Inr res \<Rightarrow> (Inr (changes res), src\<lparr> sourceState := Some (Resolved (state res)) \<rparr>))"
  using assms
  by (simp add: ingest_def buildNaclFilesStateInner_def bindE_def split: sum.splits)







text \<open>
  The throwing branch: the one updated file declares \<open>hasOwnProperty\<close>; the store is written
  and the ingest throws the TypeError of the index build.
\<close>

lemma update_throws_on_prototype_name:
  "fst (updateNaclFiles exExt exChangesProto exSourceProto) =
     Inl (TypeError ''elementsIndexSet[elementFullName].add is not a function'') \<and>
   map (\<lambda>f. (fst f, buffer (snd f)))
     (naclFilesStore (snd (updateNaclFiles exExt exChangesProto exSourceProto))) =
     [(''p.nacl'', ''hasOwnProperty'')]"
  by code_simp

lemma storeFiles_blank:
  "naclFilesStore (storeFiles [NaclFile [] fname ts] src) = AList.delete fname (naclFilesStore src)"
  by (simp add: storeFiles_def isBlank_def)

lemma parse_empty_file:
  assumes "parse ext [] fname = Inr ([], [], sm)"
    and "cache src (cacheResultKey (clock src) (Some fname) ts (Some [])) = None"
  shows "\<exists>p src1. parseNaclFiles ext [NaclFile [] fname ts] src = (Inr [p], src1) \<and>
           filename p = fname \<and> elements p = [] \<and> errors p = [] \<and> referenced p = [] \<and>
           naclFilesStore src1 = naclFilesStore src \<and> sourceState src1 = sourceState src"
  using assms
  by (simp add: parseNaclFiles_def parseOneNaclFile_def parseNaclFile_def bindE_def returnE_def
      toParsedNaclFile_def Let_def getElementsReferences_def)

lemma setNaclFiles_empty_text:
  assumes "sourceState src = Some (Resolved s0)" and "reachable (mergeFragments ext) s0"
    and "parse ext [] fname = Inr ([], [], sm)"
    and "cache src (cacheResultKey (clock src) (Some fname) ts (Some [])) = None"
  shows "\<exists>chs src' s. setNaclFiles ext [NaclFile [] fname ts] src = (Inr chs, src') \<and>
           sourceState src' = Some (Resolved s) \<and>
           fname \<notin> fst ` set (naclFilesStore src') \<and>
           fname \<notin> fst ` set (parsedNaclFiles s) \<and>
           (\<forall>n fs. elementsIndex s n = Some fs \<longrightarrow> fname \<notin> set fs)"
proof -
  let ?src0 = "storeFiles [NaclFile [] fname ts] src"
  have c0: "cache ?src0 (cacheResultKey (clock ?src0) (Some fname) ts (Some [])) = None"
    using assms(4) by (simp add: storeFiles_def Let_def)
  from parse_empty_file[OF assms(3) c0] obtain p src1 where
    p: "parseNaclFiles ext [NaclFile [] fname ts] ?src0 = (Inr [p], src1)"
      "filename p = fname" "elements p = []" "errors p = []" "referenced p = []"
      "naclFilesStore src1 = naclFilesStore ?src0" "sourceState src1 = sourceState ?src0"
    by (elim exE conjE)
  have st1: "sourceState src1 = Some (Resolved s0)"
    using p(7) assms(1) by (simp add: storeFiles_state)
  have h: "Some s0 = None \<or> (\<exists>cs. Some s0 = Some cs \<and> reachable (mergeFragments ext) cs)"
    using assms(2) by simp
  have ix: "\<forall>q \<in> set [p]. fileIndexable q"
    using p(3,5) by (simp add: fileIndexable_def)
  from transition_returns[OF h ix] obtain r where
    r: "buildNaclFilesState (mergeFragments ext) [p] (Some s0) = Inr r" ..
  from transition_no_empty_entries[OF h r]
  have t: "\<forall>f. f \<in> filename ` set [p] \<and>
                 (\<forall>q \<in> set [p]. filename q = f \<longrightarrow> elements q = [] \<and> errors q = []) \<longrightarrow>
                 f \<notin> fst ` set (parsedNaclFiles (state r)) \<and>
                 (\<forall>n fs. elementsIndex (state r) n = Some fs \<longrightarrow> f \<notin> set fs)"
    by (rule conjunct2)
  have t': "fname \<notin> fst ` set (parsedNaclFiles (state r)) \<and>
        (\<forall>n fs. elementsIndex (state r) n = Some fs \<longrightarrow> fname \<notin> set fs)"
    using t p(2,3,4) by simp
  have i: "ingest ext [p] src1 =
      (Inr (changes r), src1\<lparr> sourceState := Some (Resolved (state r)) \<rparr>)"
    using r by (simp add: ingest_Resolved[OF st1])
  have s: "setNaclFiles ext [NaclFile [] fname ts] src =
      (Inr (changes r), src1\<lparr> sourceState := Some (Resolved (state r)) \<rparr>)"
    using p(1) i by (simp add: setNaclFiles_def bindE_def)
  have "fname \<notin> fst ` set (naclFilesStore src1)"
    unfolding p(6) storeFiles_blank by (simp add: delete_notin_dom)
  then show ?thesis using s t' by simp
qed

text \<open>
  Claim C3. A state transition is a cold start, or a warm transition from a reachable state,
  that returns; it does so whenever no element or referenced identity of the ingested files
  is named by a property of \<open>Object.prototype\<close> (otherwise the index build may throw a
  TypeError, and then there is no new state). After every state transition the new
  \<open>parsedNaclFiles\<close> has no entry with both an empty elements list and an empty errors list;
  when the ingested batch holds a file name only with empty elements and empty errors, that
  file name is no key of \<open>parsedNaclFiles\<close> and occurs in no entry of \<open>elementsIndex\<close>. In
  particular, on a source whose state is built and reachable, \<open>setNaclFiles\<close> of a file with
  empty text (which the parser reads as no elements and no errors, and whose parse is not
  cached) returns, and afterwards the file name is neither in the file store, nor a key of
  \<open>parsedNaclFiles\<close>, nor in any entry of \<open>elementsIndex\<close>.
\<close>

theorem no_empty_entries_after_transition:
  "(currentState = None \<or> (\<exists>cs. currentState = Some cs \<and> reachable mg cs) \<longrightarrow>
      ((\<forall>p \<in> set newNaclFiles. fileIndexable p) \<longrightarrow>
         (\<exists>r. buildNaclFilesState mg newNaclFiles currentState = Inr r)) \<and>
      (\<forall>r. buildNaclFilesState mg newNaclFiles currentState = Inr r \<longrightarrow>
           (\<forall>(k, p) \<in> set (parsedNaclFiles (state r)). elements p \<noteq> [] \<or> errors p \<noteq> []) \<and>
           (\<forall>f. f \<in> filename ` set newNaclFiles \<and>
                 (\<forall>p \<in> set newNaclFiles. filename p = f \<longrightarrow> elements p = [] \<and> errors p = []) \<longrightarrow>
                 f \<notin> fst ` set (parsedNaclFiles (state r)) \<and>
                 (\<forall>n fs. elementsIndex (state r) n = Some fs \<longrightarrow> f \<notin> set fs)))) \<and>
   (sourceState src = Some (Resolved s0) \<and> reachable (mergeFragments ext) s0 \<and>
    parse ext [] fname = Inr ([], [], sm) \<and>
    cache src (cacheResultKey (clock src) (Some fname) ts (Some [])) = None \<longrightarrow>
      (\<exists>chs src' s. setNaclFiles ext [NaclFile [] fname ts] src = (Inr chs, src') \<and>
         sourceState src' = Some (Resolved s) \<and>
         fname \<notin> fst ` set (naclFilesStore src') \<and>
         fname \<notin> fst ` set (parsedNaclFiles s) \<and>
         (\<forall>n fs. elementsIndex s n = Some fs \<longrightarrow> fname \<notin> set fs)))"
proof (intro conjI impI allI)
  assume h: "currentState = None \<or> (\<exists>cs. currentState = Some cs \<and> reachable mg cs)"
  {
    assume "\<forall>p \<in> set newNaclFiles. fileIndexable p"
    from transition_returns[OF h this]
    show "\<exists>r. buildNaclFilesState mg newNaclFiles currentState = Inr r" .
  }
  {
    fix r assume r: "buildNaclFilesState mg newNaclFiles currentState = Inr r"
    from transition_no_empty_entries[OF h r]
    show "\<forall>(k, p) \<in> set (parsedNaclFiles (state r)). elements p \<noteq> [] \<or> errors p \<noteq> []"
      by (rule conjunct1)
    fix f
    assume f: "f \<in> filename ` set newNaclFiles \<and>
        (\<forall>p \<in> set newNaclFiles. filename p = f \<longrightarrow> elements p = [] \<and> errors p = [])"
    from transition_no_empty_entries[OF h r, THEN conjunct2, THEN spec, THEN mp, OF f]
    show "f \<notin> fst ` set (parsedNaclFiles (state r))"
      and "\<And>n fs. elementsIndex (state r) n = Some fs \<Longrightarrow> f \<notin> set fs"
      by simp_all
  }
next
  assume "sourceState src = Some (Resolved s0) \<and> reachable (mergeFragments ext) s0 \<and>
    parse ext [] fname = Inr ([], [], sm) \<and>
    cache src (cacheResultKey (clock src) (Some fname) ts (Some [])) = None"
  then show "\<exists>chs src' s. setNaclFiles ext [NaclFile [] fname ts] src = (Inr chs, src') \<and>
         sourceState src' = Some (Resolved s) \<and>
         fname \<notin> fst ` set (naclFilesStore src') \<and>
         fname \<notin> fst ` set (parsedNaclFiles s) \<and>
         (\<forall>n fs. elementsIndex s n = Some fs \<longrightarrow> fname \<notin> set fs)"
    using setNaclFiles_empty_text[of src s0 ext fname sm ts] by simp
qed

lemma ex_tombstone_index:
  "elementsIndex (state (projr
      (buildNaclFilesState exMerge [exFileAEmpty] (Some exState)))) ''x'' = Some [''b.nacl'']"
  by code_simp

lemma ex_tombstone_source:
  "elementsIndex (case sourceState (snd (setNaclFiles exExt [NaclFile [] ''a.nacl'' (Some 3)]
       exSource3)) of Some (Resolved s) \<Rightarrow> s) ''x'' = Some [''b.nacl'']"
  by code_simp

lemma ex_state_keys:
  "''a.nacl'' \<in> fst ` set (parsedNaclFiles exState) \<and>
   elementsIndex exState ''x'' = Some [''a.nacl'', ''b.nacl'']"
  by code_simp

theorem no_empty_entries_after_transition_witness:
  "reachable exMerge exState \<and>
   fileIndexable exFileAEmpty \<and>
   ''a.nacl'' \<in> fst ` set (parsedNaclFiles exState) \<and>
   elementsIndex exState ''x'' = Some [''a.nacl'', ''b.nacl''] \<and>
   (\<exists>r. buildNaclFilesState exMerge [exFileAEmpty] (Some exState) = Inr r \<and>
      ''a.nacl'' \<notin> fst ` set (parsedNaclFiles (state r)) \<and>
      elementsIndex (state r) ''x'' = Some [''b.nacl'']) \<and>
   sourceState exSource3 = Some (Resolved exState) \<and>
   ''a.nacl'' \<in> fst ` set (naclFilesStore exSource3) \<and>
   (\<exists>chs src' s. setNaclFiles exExt [NaclFile [] ''a.nacl'' (Some 3)] exSource3 = (Inr chs, src') \<and>
      sourceState src' = Some (Resolved s) \<and>
      ''a.nacl'' \<notin> fst ` set (naclFilesStore src') \<and>
      ''a.nacl'' \<notin> fst ` set (parsedNaclFiles s) \<and>
      elementsIndex s ''x'' = Some [''b.nacl''])"
proof -
  note t = no_empty_entries_after_transition[where currentState = "Some exState" and mg = exMerge
      and newNaclFiles = "[exFileAEmpty]" and src = exSource3 and ?s0.0 = exState and ext = exExt
      and fname = "''a.nacl''" and sm = "[]" and ts = "Some 3"]
  have h1: "Some exState = None \<or> (\<exists>cs. Some exState = Some cs \<and> reachable exMerge cs)"
    using reachable_exState by simp
  have h2: "sourceState exSource3 = Some (Resolved exState) \<and>
      reachable (mergeFragments exExt) exState \<and>
      parse exExt [] ''a.nacl'' = Inr ([], [], []) \<and>
      cache exSource3 (cacheResultKey (clock exSource3) (Some ''a.nacl'') (Some 3) (Some [])) = None"
    using reachable_exState by (simp add: exSource3_def exExt_def)
  note t1 = t[THEN conjunct1, THEN mp, OF h1]
  from t1[THEN conjunct1, THEN mp, OF exFileAEmpty_indexable]
  obtain r where r: "buildNaclFilesState exMerge [exFileAEmpty] (Some exState) = Inr r" ..
  from t1[THEN conjunct2, THEN spec, THEN mp, OF r]
  have r1: "\<forall>f. f \<in> filename ` set [exFileAEmpty] \<and>
                 (\<forall>p \<in> set [exFileAEmpty]. filename p = f \<longrightarrow> elements p = [] \<and> errors p = []) \<longrightarrow>
                 f \<notin> fst ` set (parsedNaclFiles (state r)) \<and>
                 (\<forall>n fs. elementsIndex (state r) n = Some fs \<longrightarrow> f \<notin> set fs)"
    by (rule conjunct2)
  have a1: "''a.nacl'' \<notin> fst ` set (parsedNaclFiles (state r))"
    using r1 by (simp add: exFileAEmpty_def)
  have a2: "elementsIndex (state r) ''x'' = Some [''b.nacl'']"
    using ex_tombstone_index r by simp
  from t[THEN conjunct2, THEN mp, OF h2] obtain chs src' s where
    s: "setNaclFiles exExt [NaclFile [] ''a.nacl'' (Some 3)] exSource3 = (Inr chs, src')"
      "sourceState src' = Some (Resolved s)"
      "''a.nacl'' \<notin> fst ` set (naclFilesStore src')"
      "''a.nacl'' \<notin> fst ` set (parsedNaclFiles s)"
    by (elim exE conjE)
  have a3: "elementsIndex s ''x'' = Some [''b.nacl'']"
    using ex_tombstone_source s(1,2) by simp
  have b1: "\<exists>r. buildNaclFilesState exMerge [exFileAEmpty] (Some exState) = Inr r \<and>
      ''a.nacl'' \<notin> fst ` set (parsedNaclFiles (state r)) \<and>
      elementsIndex (state r) ''x'' = Some [''b.nacl'']"
    using r a1 a2 by (intro exI[of _ r] conjI)
  have b2: "\<exists>chs src' s. setNaclFiles exExt [NaclFile [] ''a.nacl'' (Some 3)] exSource3 = (Inr chs, src') \<and>
      sourceState src' = Some (Resolved s) \<and>
      ''a.nacl'' \<notin> fst ` set (naclFilesStore src') \<and>
      ''a.nacl'' \<notin> fst ` set (parsedNaclFiles s) \<and>
      elementsIndex s ''x'' = Some [''b.nacl'']"
    using s a3 by (intro exI[of _ chs] exI[of _ src'] exI[of _ s] conjI)
  have b3: "sourceState exSource3 = Some (Resolved exState)"
    by (simp add: exSource3_def)
  have b4: "''a.nacl'' \<in> fst ` set (naclFilesStore exSource3)"
    by (simp add: exSource3_def)
  show ?thesis
    using reachable_exState exFileAEmpty_indexable ex_state_keys b1 b2 b3 b4
    by (intro conjI) simp_all
qed


end
